theory Spec2Isabelle
  imports Complex_Main "HOL-Library.Log_Nat"
begin

chapter \<open>The npm installation monitor of berret (src/commands/status.js)\<close>

text \<open>
  A shallow embedding of class \<open>NpmMonitor\<close>: the dependency-chain resolver
  (\<open>analyzeDependencyChain\<close>, \<open>findPackageInLock\<close>), the duration heuristic
  (\<open>estimateInstallDuration\<close>), the installation tracker
  (\<open>trackInstallationWithProgress\<close>, \<open>simulateInstallProgress\<close>,
  \<open>checkInstallationCompleteWithProgress\<close>), the global-store watcher and the
  registration loop of \<open>fastFindAndMonitorProjects\<close>.
\<close>

section \<open>JavaScript values\<close>

text \<open>
  What \<open>fs.readJson\<close> returns: a parsed JSON value. A string is the list of its code
  units. An object is the list of its own properties in the order \<open>Object.entries\<close>
  enumerates them. The value \<open>undefined\<close> (an absent property) is \<open>None\<close> of
  \<open>json option\<close>. A number is kept as its exact value; the code only ever asks
  whether it is zero.
\<close>

datatype json =
    JNull
  | JBool bool
  | JNum rat
  | JStr string
  | JArr "json list"
  | JObj "(string \<times> json) list"

text \<open>
  \<open>TypeError\<close>: a property read on \<open>null\<close>. \<open>ReadError\<close>: \<open>fs.readJson\<close> rejects
  (the file is missing, unreadable or not JSON).
\<close>

datatype js_error = TypeError | ReadError

text \<open>Truthiness, as \<open>if (v)\<close> and \<open>v || w\<close> test it.\<close>

fun is_truthy :: "json \<Rightarrow> bool" where
  "is_truthy JNull = False"
| "is_truthy (JBool b) = b"
| "is_truthy (JNum r) = (r \<noteq> 0)"
| "is_truthy (JStr s) = (s \<noteq> [])"
| "is_truthy (JArr xs) = True"
| "is_truthy (JObj kvs) = True"

fun truthy :: "json option \<Rightarrow> bool" where
  "truthy None = False"
| "truthy (Some v) = is_truthy v"

text \<open>Decimal digits of a natural number: the key of an array index, \<open>String(n)\<close>.\<close>

definition digit_char :: "nat \<Rightarrow> char" where
  "digit_char d = ''0123456789'' ! d"

function show_nat :: "nat \<Rightarrow> string" where
  "show_nat n =
     (if n < 10 then [digit_char n] else show_nat (n div 10) @ [digit_char (n mod 10)])"
  by pat_completeness auto
termination
  by (relation "measure id") auto

definition index_keys :: "nat \<Rightarrow> string list" where
  "index_keys n = map show_nat [0..<n]"

text \<open>
  The own enumerable properties of a value that is not \<open>null\<close> or \<open>undefined\<close>:
  what \<open>Object.entries(v)\<close> lists and what the spread \<open>{...v}\<close> copies. An array
  and a string have their indices as keys; a number and a boolean have none. (The
  spread of \<open>null\<close> copies nothing; \<open>Object.entries\<close> is only called on truthy
  values.)
\<close>

fun own_entries :: "json \<Rightarrow> (string \<times> json) list" where
  "own_entries (JObj kvs) = kvs"
| "own_entries (JArr xs) = zip (index_keys (length xs)) xs"
| "own_entries (JStr s) = zip (index_keys (length s)) (map (\<lambda>c. JStr [c]) s)"
| "own_entries JNull = []"
| "own_entries (JBool b) = []"
| "own_entries (JNum r) = []"

text \<open>
  The property read \<open>v.k\<close> for the names the code reads this way (\<open>packages\<close>,
  \<open>dependencies\<close>, \<open>devDependencies\<close>), which no built-in prototype defines:
  a \<open>TypeError\<close> on \<open>null\<close>, the own property of an object, \<open>undefined\<close> on
  every other value.
\<close>

fun get_prop :: "json \<Rightarrow> string \<Rightarrow> js_error + json option" where
  "get_prop JNull k = Inl TypeError"
| "get_prop (JObj kvs) k = Inr (map_of kvs k)"
| "get_prop (JBool b) k = Inr None"
| "get_prop (JNum r) k = Inr None"
| "get_prop (JStr s) k = Inr None"
| "get_prop (JArr xs) k = Inr None"

text \<open>
  The names \<open>Object.prototype\<close> defines. A plain object answers a read of one of
  them with the inherited function (or, for \<open>__proto__\<close>, the prototype itself)
  unless it has an own property of that name; every inherited value is truthy.
\<close>

definition object_prototype_names :: "string list" where
  "object_prototype_names =
     [''constructor'', ''__defineGetter__'', ''__defineSetter__'', ''hasOwnProperty'',
      ''__lookupGetter__'', ''__lookupSetter__'', ''isPrototypeOf'',
      ''propertyIsEnumerable'', ''toString'', ''valueOf'', ''__proto__'',
      ''toLocaleString'']"

section \<open>String methods\<close>

definition startsWith :: "string \<Rightarrow> string \<Rightarrow> bool" where
  "startsWith s pre = (take (length pre) s = pre)"

definition endsWith :: "string \<Rightarrow> string \<Rightarrow> bool" where
  "endsWith s suf = (length suf \<le> length s \<and> drop (length s - length suf) s = suf)"

text \<open>\<open>s.includes(sub)\<close>: \<open>sub\<close> occurs in \<open>s\<close> as a contiguous run.\<close>

fun str_includes :: "string \<Rightarrow> string \<Rightarrow> bool" where
  "str_includes [] sub = (sub = [])"
| "str_includes (c # cs) sub = (startsWith (c # cs) sub \<or> str_includes cs sub)"

text \<open>
  \<open>s.replace(pat, rep)\<close> with a string pattern: only the first occurrence of
  \<open>pat\<close> is replaced.
\<close>

fun replace_first :: "string \<Rightarrow> string \<Rightarrow> string \<Rightarrow> string" where
  "replace_first pat rep [] = (if pat = [] then rep else [])"
| "replace_first pat rep (c # cs) =
     (if startsWith (c # cs) pat then rep @ drop (length pat) (c # cs)
      else c # replace_first pat rep cs)"

text \<open>\<open>s.split(sep)\<close> for a one-character separator; the result is never empty.\<close>

fun split_on :: "char \<Rightarrow> string \<Rightarrow> string list" where
  "split_on sep [] = [[]]"
| "split_on sep (c # cs) =
     (if c = sep then [] # split_on sep cs
      else (case split_on sep cs of
              [] \<Rightarrow> [[c]]
            | w # ws \<Rightarrow> (c # w) # ws))"

section \<open>The dependency-chain resolver\<close>

text \<open>
  \<open>chainInfo.type\<close> is one of the three string constants \<open>'user-requested'\<close>,
  \<open>'dependency'\<close> and \<open>'unknown'\<close>.
\<close>

datatype chain_type = UserRequested | Dependency | Unknown

text \<open>
  The object \<open>{ type, parent, reason }\<close>; the fields carry the prefix \<open>ci_\<close>
  since \<open>parent\<close> is also a parameter name of the code.
\<close>

record chain_info =
  ci_type :: chain_type
  ci_parent :: "string option"
  ci_reason :: string

text \<open>
  A loop \<open>for (const x of xs) { ... }\<close> whose body may throw, return a value from
  the enclosing function (\<open>Some r\<close>) or fall through to the next element.
\<close>

fun for_of :: "('a \<Rightarrow> js_error + 'b option) \<Rightarrow> 'a list \<Rightarrow> js_error + 'b option" where
  "for_of body [] = Inr None"
| "for_of body (x # xs) =
     (case body x of
        Inl e \<Rightarrow> Inl e
      | Inr (Some r) \<Rightarrow> Inr (Some r)
      | Inr None \<Rightarrow> for_of body xs)"

lemma for_of_cong [fundef_cong]:
  "xs = ys \<Longrightarrow> (\<And>x. x \<in> set ys \<Longrightarrow> f x = g x) \<Longrightarrow> for_of f xs = for_of g ys"
  by (induction ys arbitrary: xs) (auto split: sum.splits option.splits)

text \<open>The nesting depth of a value: the measure of the recursion below.\<close>

fun maxl :: "nat list \<Rightarrow> nat" where
  "maxl [] = 0"
| "maxl (x # xs) = max x (maxl xs)"

fun depth :: "json \<Rightarrow> nat" where
  "depth (JArr xs) = Suc (maxl (map depth xs))"
| "depth (JObj kvs) = Suc (maxl (map (\<lambda>kv. depth (snd kv)) kvs))"
| "depth JNull = 0"
| "depth (JBool b) = 0"
| "depth (JNum r) = 0"
| "depth (JStr s) = 0"

lemma maxl_ge: "x \<in> set xs \<Longrightarrow> x \<le> maxl xs"
  by (induction xs) auto

lemma depth_entries: "(k, v) \<in> set (own_entries j) \<Longrightarrow> depth v \<le> depth j"
proof (cases j)
  case (JObj kvs)
  assume "(k, v) \<in> set (own_entries j)"
  with JObj have "depth v \<in> set (map (\<lambda>kv. depth (snd kv)) kvs)" by force
  from maxl_ge [OF this] JObj show ?thesis by simp
next
  case (JArr xs)
  assume "(k, v) \<in> set (own_entries j)"
  with JArr have "v \<in> set xs" by (auto dest: set_zip_rightD)
  then have "depth v \<in> set (map depth xs)" by simp
  from maxl_ge [OF this] JArr show ?thesis by simp
next
  case (JStr s)
  assume "(k, v) \<in> set (own_entries j)"
  with JStr have "v \<in> set (map (\<lambda>c. JStr [c]) s)" by (auto dest: set_zip_rightD)
  then show ?thesis by auto
qed auto

lemma depth_get_prop: "get_prop j k = Inr (Some v) \<Longrightarrow> depth v < depth j"
proof (cases j)
  case (JObj kvs)
  assume "get_prop j k = Inr (Some v)"
  with JObj have "(k, v) \<in> set kvs" by (auto dest: map_of_SomeD)
  then have "depth v \<in> set (map (\<lambda>kv. depth (snd kv)) kvs)" by force
  from maxl_ge [OF this] JObj show ?thesis by simp
qed auto

text \<open>
  \<^verbatim>\<open>
  findPackageInLock(packageName, lockJson, parent = null) {
    if (lockJson.packages) {
      for (const [pkgPath, pkgInfo] of Object.entries(lockJson.packages)) {
        if (pkgPath.endsWith(`/node_modules/${packageName}`)) {
          const parentPath = pkgPath.replace(`/node_modules/${packageName}`, '');
          const parentName = parentPath.split('/').pop() || parent;
          return { parent: parentName };
        }
      }
    }
    if (lockJson.dependencies) {
      for (const [depName, depInfo] of Object.entries(lockJson.dependencies)) {
        if (depName === packageName) {
          return { parent };
        }
        if (depInfo.dependencies) {
          const result = this.findPackageInLock(packageName,
            { dependencies: depInfo.dependencies }, depName);
          if (result) return result;
        }
      }
    }
    return null;
  }
  \<close>
  The result \<open>{ parent: p }\<close> is \<open>Some p\<close>, with \<open>p = None\<close> for \<open>null\<close>; the
  result \<open>null\<close> is \<open>None\<close>.
\<close>

definition packages_entry :: "string \<Rightarrow> string option \<Rightarrow> string \<times> json \<Rightarrow> js_error + string option option" where
  "packages_entry packageName parent = (\<lambda>(pkgPath, pkgInfo).
     if endsWith pkgPath (''/node_modules/'' @ packageName) then
       (let parentPath = replace_first (''/node_modules/'' @ packageName) [] pkgPath;
            popped = last (split_on (CHR ''/'') parentPath);
            parentName = (if popped \<noteq> [] then Some popped else parent)
        in Inr (Some parentName))
     else Inr None)"

function findPackageInLock :: "string \<Rightarrow> json \<Rightarrow> string option \<Rightarrow> js_error + string option option" where
  "findPackageInLock packageName lockJson parent =
     (case get_prop lockJson ''packages'' of
        Inl e \<Rightarrow> Inl e
      | Inr packages \<Rightarrow>
          (case (case packages of
                   None \<Rightarrow> Inr None
                 | Some ps \<Rightarrow>
                     if is_truthy ps
                     then for_of (packages_entry packageName parent) (own_entries ps)
                     else Inr None) of
             Inl e \<Rightarrow> Inl e
           | Inr (Some r) \<Rightarrow> Inr (Some r)
           | Inr None \<Rightarrow>
               (case get_prop lockJson ''dependencies'' of
                  Inl e \<Rightarrow> Inl e
                | Inr None \<Rightarrow> Inr None
                | Inr (Some ds) \<Rightarrow>
                    if is_truthy ds then
                      for_of (\<lambda>(depName, depInfo).
                          if depName = packageName then Inr (Some parent)
                          else (case get_prop depInfo ''dependencies'' of
                                  Inl e \<Rightarrow> Inl e
                                | Inr None \<Rightarrow> Inr None
                                | Inr (Some sub) \<Rightarrow>
                                    if is_truthy sub then
                                      findPackageInLock packageName
                                        (JObj [(''dependencies'', sub)]) (Some depName)
                                    else Inr None))
                        (own_entries ds)
                    else Inr None)))"
  by pat_completeness auto
termination
  apply (relation "measure (\<lambda>(n, j, p). depth j)")
   apply simp
  apply clarsimp
  apply (frule depth_entries)
  apply (auto dest!: depth_get_prop)
  done

declare findPackageInLock.simps [simp del]

text \<open>
  The files \<open>analyzeDependencyChain\<close> reads under \<open>projectPath\<close>: what
  \<open>fs.readJson\<close> gives for \<open>package.json\<close> (\<open>None\<close> when it rejects), what
  \<open>fs.pathExists\<close> gives for \<open>package-lock.json\<close>, and what \<open>fs.readJson\<close>
  gives for it.
\<close>

record project_files =
  manifest_json :: "json option"
  lock_exists :: bool
  lock_json :: "json option"

definition readJson :: "json option \<Rightarrow> js_error + json" where
  "readJson file = (case file of None \<Rightarrow> Inl ReadError | Some v \<Rightarrow> Inr v)"

text \<open>The properties the spread \<open>...v\<close> copies; \<open>undefined\<close> and \<open>null\<close> give none.\<close>

definition spread :: "json option \<Rightarrow> (string \<times> json) list" where
  "spread v = (case v of None \<Rightarrow> [] | Some j \<Rightarrow> own_entries j)"

text \<open>
  \<open>if (obj[k])\<close> on a plain object \<open>obj\<close>: the own property when there is one,
  else what \<open>Object.prototype\<close> has under that name.
\<close>

definition plain_object_truthy :: "(string \<rightharpoonup> json) \<Rightarrow> string \<Rightarrow> bool" where
  "plain_object_truthy obj k =
     (case obj k of
        Some v \<Rightarrow> is_truthy v
      | None \<Rightarrow> k \<in> set object_prototype_names)"

text \<open>
  \<^verbatim>\<open>
  const allDeps = { ...packageJson.dependencies, ...packageJson.devDependencies };
  if (allDeps[packageName]) {
  \<close>
  A property of \<open>devDependencies\<close> overwrites the one of \<open>dependencies\<close>.
\<close>

definition manifest_check :: "string \<Rightarrow> json \<Rightarrow> js_error + bool" where
  "manifest_check packageName packageJson =
     (case get_prop packageJson ''dependencies'' of
        Inl e \<Rightarrow> Inl e
      | Inr dependencies \<Rightarrow>
          (case get_prop packageJson ''devDependencies'' of
             Inl e \<Rightarrow> Inl e
           | Inr devDependencies \<Rightarrow>
               (let allDeps = map_of (spread dependencies) ++ map_of (spread devDependencies)
                in Inr (plain_object_truthy allDeps packageName))))"

text \<open>\<open>packageInfo.parent || 'unknown package'\<close>\<close>

definition parent_or_unknown :: "string option \<Rightarrow> string" where
  "parent_or_unknown p =
     (case p of
        None \<Rightarrow> ''unknown package''
      | Some n \<Rightarrow> if n \<noteq> [] then n else ''unknown package'')"

text \<open>
  \<^verbatim>\<open>
  async analyzeDependencyChain(packageName, projectPath = process.cwd()) {
    try {
      const packageJsonPath = path.join(projectPath, 'package.json');
      const packageJson = await fs.readJson(packageJsonPath);
      const allDeps = { ...packageJson.dependencies, ...packageJson.devDependencies };
      if (allDeps[packageName]) {
        return { type: 'user-requested', parent: null,
                 reason: `Direct dependency in package.json` };
      }
      const lockPath = path.join(projectPath, 'package-lock.json');
      if (await fs.pathExists(lockPath)) {
        const lockJson = await fs.readJson(lockPath);
        const packageInfo = this.findPackageInLock(packageName, lockJson);
        if (packageInfo) {
          return { type: 'dependency', parent: packageInfo.parent,
                   reason: `Dependency of ${packageInfo.parent || 'unknown package'}` };
        }
      }
      return { type: 'unknown', parent: null, reason: 'Installation source unknown' };
    } catch (error) {
      return { type: 'unknown', parent: null,
               reason: 'Could not analyze dependency chain' };
    }
  }
  \<close>
  \<open>lock_lookup\<close> is the block under \<open>if (await fs.pathExists(lockPath))\<close>,
  \<open>analyze_try\<close> the body of \<open>try\<close>.
\<close>

definition lock_lookup :: "string \<Rightarrow> project_files \<Rightarrow> js_error + chain_info option" where
  "lock_lookup packageName files =
     (if lock_exists files then
        (case readJson (lock_json files) of
           Inl e \<Rightarrow> Inl e
         | Inr lockJson \<Rightarrow>
             (case findPackageInLock packageName lockJson None of
                Inl e \<Rightarrow> Inl e
              | Inr None \<Rightarrow> Inr None
              | Inr (Some p) \<Rightarrow>
                  Inr (Some \<lparr>ci_type = Dependency, ci_parent = p,
                             ci_reason = ''Dependency of '' @ parent_or_unknown p\<rparr>)))
      else Inr None)"

definition analyze_try :: "string \<Rightarrow> project_files \<Rightarrow> js_error + chain_info" where
  "analyze_try packageName files =
     (case readJson (manifest_json files) of
        Inl e \<Rightarrow> Inl e
      | Inr packageJson \<Rightarrow>
          (case manifest_check packageName packageJson of
             Inl e \<Rightarrow> Inl e
           | Inr True \<Rightarrow>
               Inr \<lparr>ci_type = UserRequested, ci_parent = None,
                    ci_reason = ''Direct dependency in package.json''\<rparr>
           | Inr False \<Rightarrow>
               (case lock_lookup packageName files of
                  Inl e \<Rightarrow> Inl e
                | Inr (Some info) \<Rightarrow> Inr info
                | Inr None \<Rightarrow>
                    Inr \<lparr>ci_type = Unknown, ci_parent = None,
                         ci_reason = ''Installation source unknown''\<rparr>)))"

text \<open>\<open>try { body } catch (error) { handler }\<close>\<close>

definition try_catch :: "js_error + 'a \<Rightarrow> (js_error \<Rightarrow> js_error + 'a) \<Rightarrow> js_error + 'a" where
  "try_catch body handler = (case body of Inl e \<Rightarrow> handler e | Inr r \<Rightarrow> Inr r)"

definition analyzeDependencyChain :: "string \<Rightarrow> project_files \<Rightarrow> js_error + chain_info" where
  "analyzeDependencyChain packageName files =
     try_catch (analyze_try packageName files)
       (\<lambda>error. Inr \<lparr>ci_type = Unknown, ci_parent = None,
                      ci_reason = ''Could not analyze dependency chain''\<rparr>)"

subsection \<open>The nested lock tree, as the specification describes it\<close>

text \<open>
  "A recursive mapping of name to subdependencies; depth-first search for the package
  name, tracking the nearest ancestor name as parent." \<open>dep_tree\<close> is that mapping,
  \<open>spec_occurrences\<close> lists every entry of it in depth-first order (an entry before
  its subdependencies, these before its later siblings) together with the name of the
  entry it hangs under, and \<open>spec_search\<close> takes the first entry of that name.
  These three follow the specification, not the code.
\<close>

datatype dep_tree = DepTree "(string \<times> dep_tree) list"

fun spec_occurrences :: "string option \<Rightarrow> (string \<times> dep_tree) list \<Rightarrow> (string \<times> string option) list" where
  "spec_occurrences ancestor [] = []"
| "spec_occurrences ancestor ((name, DepTree subs) # rest) =
     (name, ancestor) # spec_occurrences (Some name) subs @ spec_occurrences ancestor rest"

definition spec_search :: "string \<Rightarrow> (string \<times> dep_tree) list \<Rightarrow> string option option" where
  "spec_search packageName tree = map_of (spec_occurrences None tree) packageName"

lemma depth_member: "(k, v) \<in> set kvs \<Longrightarrow> depth v < depth (JObj kvs)"
proof -
  assume "(k, v) \<in> set kvs"
  then have "depth v \<in> set (map (\<lambda>kv. depth (snd kv)) kvs)" by force
  from maxl_ge [OF this] show ?thesis by simp
qed

lemma depth_map_of: "map_of kvs k = Some v \<Longrightarrow> depth v < depth (JObj kvs)"
  using depth_member [OF map_of_SomeD] by blast

text \<open>
  A \<open>dependencies\<close> value of a lock file in nested-tree format: an object whose
  every property is an object (the entry of one package, with any fields) whose own
  \<open>dependencies\<close>, when present, is again such a value.
\<close>

function nested_tree :: "json \<Rightarrow> bool" where
  "nested_tree ds =
     (case ds of
        JObj kvs \<Rightarrow>
          list_all (\<lambda>(depName, depInfo).
            case depInfo of
              JObj fs \<Rightarrow>
                (case map_of fs ''dependencies'' of
                   None \<Rightarrow> True
                 | Some sub \<Rightarrow> nested_tree sub)
            | _ \<Rightarrow> False) kvs
      | _ \<Rightarrow> False)"
  by pat_completeness auto
termination
proof (relation "measure depth", goal_cases)
  case 1
  show ?case by simp
next
  case (2 ds kvs x depName depInfo fs sub)
  then have "depth sub < depth depInfo" and "depth depInfo < depth ds"
    by (auto dest: depth_map_of depth_member)
  then show ?case by simp
qed

declare nested_tree.simps [simp del]

text \<open>The tree a \<open>dependencies\<close> value stands for.\<close>

function tree_of :: "json \<Rightarrow> (string \<times> dep_tree) list" where
  "tree_of ds =
     map (\<lambda>(depName, depInfo).
            (depName,
             DepTree (case get_prop depInfo ''dependencies'' of
                        Inr (Some sub) \<Rightarrow> tree_of sub
                      | _ \<Rightarrow> [])))
         (own_entries ds)"
  by pat_completeness auto
termination
proof (relation "measure depth", goal_cases)
  case 1
  show ?case by simp
next
  case (2 ds x depName depInfo r sub)
  then have "depth sub < depth depInfo" and "depth depInfo \<le> depth ds"
    by (auto dest: depth_get_prop depth_entries)
  then show ?case by simp
qed

declare tree_of.simps [simp del]


definition source_unknown :: chain_info where
  "source_unknown = \<lparr>ci_type = Unknown, ci_parent = None,
      ci_reason = ''Installation source unknown''\<rparr>"

section \<open>The duration heuristic\<close>

text \<open>
  \<^verbatim>\<open>
  estimateInstallDuration(packageName) {
    const largePackages = ['react', 'angular', 'vue', 'webpack', 'typescript', 'babel'];
    const mediumPackages = ['lodash', 'moment', 'axios', 'express'];
    if (largePackages.some(pkg => packageName.includes(pkg))) {
      return 8000; // 8 seconds
    } else if (mediumPackages.some(pkg => packageName.includes(pkg))) {
      return 4000; // 4 seconds
    } else {
      return 2000; // 2 seconds
    }
  }
  \<close>
\<close>

definition largePackages :: "string list" where
  "largePackages = [''react'', ''angular'', ''vue'', ''webpack'', ''typescript'', ''babel'']"

definition mediumPackages :: "string list" where
  "mediumPackages = [''lodash'', ''moment'', ''axios'', ''express'']"

definition estimateInstallDuration :: "string \<Rightarrow> int" where
  "estimateInstallDuration packageName =
     (if list_ex (\<lambda>pkg. str_includes packageName pkg) largePackages then 8000
      else if list_ex (\<lambda>pkg. str_includes packageName pkg) mediumPackages then 4000
      else 2000)"

text \<open>
  "Substring match", in the words of the specification: the fragment occurs somewhere
  inside the name.
\<close>

definition substring_of :: "string \<Rightarrow> string \<Rightarrow> bool" where
  "substring_of fragment name = (\<exists>before after. name = before @ fragment @ after)"

section \<open>Double-precision arithmetic\<close>

text \<open>
  JavaScript numbers are IEEE 754 doubles, and \<open>/\<close> and \<open>*\<close> give the double
  nearest to the exact result, ties going to the even significand. A double is kept here
  as the rational number it denotes. \<open>pow2 e\<close> is \<open>2 ^ e\<close>;
  \<open>binary_exponent x\<close>, for \<open>x > 0\<close>, is the \<open>e\<close> with
  \<open>2 ^ e \<le> x < 2 ^ (e + 1)\<close> (lemmas \<open>binary_exponent_le\<close> and
  \<open>binary_exponent_gt\<close>); \<open>round_double x\<close> is the multiple of
  \<open>2 ^ (e - 52)\<close> nearest to \<open>x\<close>, that is \<open>x\<close> rounded to a significand of
  53 bits. Exponents are not bounded: overflow and subnormal numbers are left out, and
  they do not occur below, where the numbers rounded are the quotient of a difference of
  two \<open>Date.now()\<close> values by 1000, 2000, 5000 or 8000, and such a quotient times
  100.
\<close>

definition pow2 :: "int \<Rightarrow> rat" where
  "pow2 e = (if 0 \<le> e then 2 ^ nat e else 1 / 2 ^ nat (- e))"

definition binary_exponent :: "rat \<Rightarrow> int" where
  "binary_exponent x =
     (case quotient_of x of
        (a, b) \<Rightarrow> (let d = bitlen a - bitlen b in if pow2 d \<le> x then d else d - 1))"

definition round_half_even :: "rat \<Rightarrow> int" where
  "round_half_even y =
     (let f = \<lfloor>y\<rfloor>; r = y - of_int f
      in if r < 1 / 2 then f else if 1 / 2 < r then f + 1 else if even f then f else f + 1)"

definition round_double :: "rat \<Rightarrow> rat" where
  "round_double x =
     (if x = 0 then 0
      else (let ulp = pow2 (binary_exponent \<bar>x\<bar> - 52)
            in of_int (round_half_even (x / ulp)) * ulp))"

section \<open>The installation tracker\<close>

text \<open>
  The state of one \<open>NpmMonitor\<close> that the tracker and the registry read or write.
  The two \<open>Map\<close>s are partial functions on the key string. A progress bar and a
  timer are objects with an identity: each gets a fresh number from \<open>next_id\<close>.
  \<open>bars\<close> holds every bar object created, \<open>multibar\<close> the bars the display
  currently shows, \<open>timers\<close> the pending timeouts and intervals with the delay they
  were set with. The \<open>Set\<close> \<open>monitoredProjects\<close> is the list of its members in
  insertion order. (The fields \<open>dependencyChains\<close>, \<open>installationProgress\<close> and
  \<open>isUniversal\<close> are written but never read by the code modelled here, and console
  output is not kept.)
\<close>

record bar =
  bar_value :: rat
  bar_package :: string
  bar_status :: string
  bar_eta :: string

text \<open>
  The object stored in \<open>activeInstalls\<close>; the fields carry the prefix \<open>i_\<close> since
  \<open>projectName\<close> and \<open>chainInfo\<close> are also parameter names of the code.
\<close>

record install =
  i_startTime :: int
  i_projectName :: string
  i_chainInfo :: chain_info
  i_progressBar :: nat
  i_progressInterval :: "nat option"

text \<open>
  The callbacks handed to \<open>setInterval\<close> and \<open>setTimeout\<close>, with what their
  closures hold: the tick of \<open>simulateInstallProgress\<close> (key, package name and the
  \<open>install\<close> object, of which it reads \<open>startTime\<close>, \<open>chainInfo\<close> and
  \<open>progressBar\<close>, never reassigned after creation), \<open>checkComplete\<close> (key, package
  name, project name) and the removal of a completed bar.
\<close>

datatype timer =
    ProgressInterval string string install
  | CheckComplete string string string
  | Linger nat

text \<open>
  The watch subscriptions (\<open>chokidar.watch\<close>) with a callback: on the
  \<open>node_modules\<close> directory and the \<open>package.json\<close> of a project path, on the
  global store, and on the two of the current directory in local mode.
\<close>

datatype watcher =
    NodeModulesWatch string
  | PackageJsonWatch string
  | GlobalWatch
  | LocalNodeModulesWatch
  | LocalPackageJsonWatch

record monitor =
  activeInstalls :: "string \<rightharpoonup> install"
  progressBars :: "string \<rightharpoonup> nat"
  bars :: "nat \<rightharpoonup> bar"
  multibar :: "nat list"
  timers :: "nat \<rightharpoonup> nat \<times> timer"
  monitoredProjects :: "string list"
  watchers :: "watcher list"
  next_id :: nat

text \<open>\<open>new NpmMonitor()\<close>\<close>

definition new_monitor :: monitor where
  "new_monitor =
     \<lparr>activeInstalls = Map.empty, progressBars = Map.empty, bars = Map.empty, multibar = [],
      timers = Map.empty, monitoredProjects = [], watchers = [], next_id = 0\<rparr>"

text \<open>
  What the code takes from Node: \<open>process.platform\<close>, \<open>process.env.APPDATA\<close>,
  \<open>process.cwd()\<close>, \<open>path.basename\<close> and \<open>path.dirname\<close>. A file-system path
  is the list of the arguments given to \<open>path.join\<close>; \<open>fs.existsSync\<close> and
  \<open>fs.pathExists\<close> are a predicate on such lists, handed to each call that asks.
\<close>

record node_env =
  env_platform :: string
  env_APPDATA :: "string option"
  env_cwd :: string
  path_basename :: "string \<Rightarrow> string"
  path_dirname :: "string \<Rightarrow> string"

type_synonym path = "string list"

text \<open>
  \<^verbatim>\<open>
  getGlobalNodeModulesPath() {
    if (process.platform === 'win32') {
      return path.join(process.env.APPDATA || '', 'npm', 'node_modules');
    } else {
      return '/usr/local/lib/node_modules';
    }
  }
  \<close>
\<close>

definition getGlobalNodeModulesPath :: "node_env \<Rightarrow> path" where
  "getGlobalNodeModulesPath env =
     (if env_platform env = ''win32'' then
        [(case env_APPDATA env of None \<Rightarrow> [] | Some a \<Rightarrow> a), ''npm'', ''node_modules'']
      else [''/usr/local/lib/node_modules''])"

text \<open>
  \<^verbatim>\<open>
  getStatusText(chainInfo) {
    if (chainInfo.type === 'user-requested') { return 'User Package'; }
    else if (chainInfo.type === 'dependency') { return `Dep of ${chainInfo.parent}`; }
    else { return 'Installing...'; }
  }
  formatETA(milliseconds) {
    if (milliseconds <= 0) return '0s';
    const seconds = Math.ceil(milliseconds / 1000);
    return `${seconds}s`;
  }
  \<close>
\<close>

definition getStatusText :: "chain_info \<Rightarrow> string" where
  "getStatusText chainInfo =
     (if ci_type chainInfo = UserRequested then ''User Package''
      else if ci_type chainInfo = Dependency then
        ''Dep of '' @ (case ci_parent chainInfo of None \<Rightarrow> ''null'' | Some p \<Rightarrow> p)
      else ''Installing...'')"

definition formatETA :: "int \<Rightarrow> string" where
  "formatETA milliseconds =
     (if milliseconds \<le> 0 then ''0s''
      else show_nat (nat \<lceil>round_double (of_int milliseconds / 1000)\<rceil>) @ ''s'')"

text \<open>
  \<^verbatim>\<open>
  simulateInstallProgress(key, packageName, projectName) {
    const install = this.activeInstalls.get(key);
    if (!install) return;
    let progress = 0;
    const progressInterval = setInterval(() => { ... }, 200);
    install.progressInterval = progressInterval;
  }
  \<close>
\<close>

definition simulateInstallProgress :: "string \<Rightarrow> string \<Rightarrow> string \<Rightarrow> monitor \<Rightarrow> monitor" where
  "simulateInstallProgress key packageName projectName m =
     (case activeInstalls m key of
        None \<Rightarrow> m
      | Some install \<Rightarrow>
          (let progressInterval = next_id m
           in m\<lparr>timers := (timers m)(progressInterval \<mapsto>
                     (200, ProgressInterval key packageName install)),
                activeInstalls := (activeInstalls m)(key \<mapsto>
                     install\<lparr>i_progressInterval := Some progressInterval\<rparr>),
                next_id := Suc (next_id m)\<rparr>))"

text \<open>
  \<^verbatim>\<open>
  checkInstallationCompleteWithProgress(key, packageName, projectName) {
    const checkComplete = () => { ... };
    setTimeout(checkComplete, 500);
  }
  \<close>
\<close>

definition checkInstallationCompleteWithProgress :: "string \<Rightarrow> string \<Rightarrow> string \<Rightarrow> monitor \<Rightarrow> monitor" where
  "checkInstallationCompleteWithProgress key packageName projectName m =
     m\<lparr>timers := (timers m)(next_id m \<mapsto> (500, CheckComplete key packageName projectName)),
       next_id := Suc (next_id m)\<rparr>"

text \<open>
  \<^verbatim>\<open>
  trackInstallationWithProgress(packageName, projectName, chainInfo) {
    const key = `${projectName}:${packageName}`;
    if (this.activeInstalls.has(key)) return;
    const progressBar = this.multibar.create(100, 0, {
      package: `${packageName}`,
      status: this.getStatusText(chainInfo),
      eta_formatted: 'calculating...'
    });
    this.progressBars.set(key, progressBar);
    this.activeInstalls.set(key, {
      startTime: Date.now(), projectName, chainInfo, progressBar
    });
    ...
    this.simulateInstallProgress(key, packageName, projectName);
    this.checkInstallationCompleteWithProgress(key, packageName, projectName);
  }
  \<close>
  \<open>now\<close> is what \<open>Date.now()\<close> returns during the call.
\<close>

definition install_key :: "string \<Rightarrow> string \<Rightarrow> string" where
  "install_key projectName packageName = projectName @ '':'' @ packageName"

definition trackInstallationWithProgress :: "int \<Rightarrow> string \<Rightarrow> string \<Rightarrow> chain_info \<Rightarrow> monitor \<Rightarrow> monitor" where
  "trackInstallationWithProgress now packageName projectName chainInfo m =
     (let key = install_key projectName packageName in
      if activeInstalls m key \<noteq> None then m
      else
        (let progressBar = next_id m;
             m1 = m\<lparr>bars := (bars m)(progressBar \<mapsto>
                         \<lparr>bar_value = 0, bar_package = packageName,
                          bar_status = getStatusText chainInfo,
                          bar_eta = ''calculating...''\<rparr>),
                     multibar := multibar m @ [progressBar],
                     next_id := Suc (next_id m)\<rparr>;
             m2 = m1\<lparr>progressBars := (progressBars m1)(key \<mapsto> progressBar),
                      activeInstalls := (activeInstalls m1)(key \<mapsto>
                         \<lparr>i_startTime = now, i_projectName = projectName,
                          i_chainInfo = chainInfo, i_progressBar = progressBar,
                          i_progressInterval = None\<rparr>)\<rparr>
         in checkInstallationCompleteWithProgress key packageName projectName
              (simulateInstallProgress key packageName projectName m2)))"

text \<open>\<open>bar.update(value, payload)\<close> on the bar object \<open>b\<close>.\<close>

definition bar_update :: "nat \<Rightarrow> bar \<Rightarrow> monitor \<Rightarrow> monitor" where
  "bar_update b new m = (if bars m b = None then m else m\<lparr>bars := (bars m)(b \<mapsto> new)\<rparr>)"

text \<open>
  The callback of the interval, fired as timer \<open>tid\<close> at time \<open>now\<close>:
  \<^verbatim>\<open>
  if (!this.activeInstalls.has(key)) { clearInterval(progressInterval); return; }
  const elapsed = Date.now() - install.startTime;
  const estimatedDuration = this.estimateInstallDuration(packageName);
  progress = Math.min(95, (elapsed / estimatedDuration) * 100);
  install.progressBar.update(progress, {
    package: packageName,
    status: install.chainInfo ? this.getStatusText(install.chainInfo) : 'Installing...',
    eta_formatted: this.formatETA(estimatedDuration - elapsed)
  });
  \<close>
  \<open>Date.now()\<close> is a whole number of milliseconds below \<open>2 ^ 53\<close>, so the two
  times, \<open>elapsed\<close> and \<open>estimatedDuration - elapsed\<close> are doubles as they stand
  (lemma \<open>round_double_of_int\<close>); the quotient and the product are each rounded to
  a double, as is the quotient in \<open>formatETA\<close>; \<open>Math.min\<close> returns one of its
  arguments. \<open>install.chainInfo\<close> is always an object, so the alternative
  \<open>'Installing...'\<close> of the conditional is never taken.
\<close>

definition progress_percentage :: "int \<Rightarrow> int \<Rightarrow> rat" where
  "progress_percentage elapsed estimatedDuration =
     min 95 (round_double (round_double (of_int elapsed / of_int estimatedDuration) * 100))"

definition progress_tick :: "int \<Rightarrow> nat \<Rightarrow> string \<Rightarrow> string \<Rightarrow> install \<Rightarrow> monitor \<Rightarrow> monitor" where
  "progress_tick now tid key packageName install m =
     (if activeInstalls m key = None then m\<lparr>timers := (timers m)(tid := None)\<rparr>
      else
        (let elapsed = now - i_startTime install;
             estimatedDuration = estimateInstallDuration packageName;
             progress = progress_percentage elapsed estimatedDuration
         in bar_update (i_progressBar install)
              \<lparr>bar_value = progress, bar_package = packageName,
               bar_status = getStatusText (i_chainInfo install),
               bar_eta = formatETA (estimatedDuration - elapsed)\<rparr> m))"

text \<open>
  The location \<open>checkComplete\<close> looks at:
  \<^verbatim>\<open>
  if (projectName === 'GLOBAL') {
    packagePath = path.join(this.getGlobalNodeModulesPath(), packageName, 'package.json');
  } else if (projectName === 'LOCAL') {
    packagePath = path.join('node_modules', packageName, 'package.json');
  } else {
    for (const monitoredPath of this.monitoredProjects) {
      if (path.basename(monitoredPath) === projectName) {
        packagePath = path.join(monitoredPath, 'node_modules', packageName, 'package.json');
        break;
      }
    }
  }
  \<close>
  \<open>None\<close> is \<open>undefined\<close>: no monitored path has that base name.
\<close>

definition packagePath :: "node_env \<Rightarrow> string list \<Rightarrow> string \<Rightarrow> string \<Rightarrow> path option" where
  "packagePath env monitored packageName projectName =
     (if projectName = ''GLOBAL'' then
        Some (getGlobalNodeModulesPath env @ [packageName, ''package.json''])
      else if projectName = ''LOCAL'' then
        Some [''node_modules'', packageName, ''package.json'']
      else
        (case find (\<lambda>monitoredPath. path_basename env monitoredPath = projectName) monitored of
           None \<Rightarrow> None
         | Some monitoredPath \<Rightarrow>
             Some [monitoredPath, ''node_modules'', packageName, ''package.json'']))"

text \<open>\<open>packagePath && fs.existsSync(packagePath)\<close>\<close>

definition manifest_observed :: "node_env \<Rightarrow> (path \<Rightarrow> bool) \<Rightarrow> string list \<Rightarrow> string \<Rightarrow> string \<Rightarrow> bool" where
  "manifest_observed env existsSync monitored packageName projectName =
     (case packagePath env monitored packageName projectName of
        None \<Rightarrow> False
      | Some p \<Rightarrow> existsSync p)"

text \<open>
  \<open>checkComplete\<close>, run when its timeout has fired (the timeout is gone by then):
  \<^verbatim>\<open>
  if (!this.activeInstalls.has(key)) return;
  ...
  if (packagePath && fs.existsSync(packagePath)) {
    const install = this.activeInstalls.get(key);
    if (install) {
      install.progressBar.update(100,
        { package: packageName, status: 'Complete!', eta_formatted: '0s' });
      if (install.progressInterval) { clearInterval(install.progressInterval); }
      setTimeout(() => { this.multibar.remove(install.progressBar); ... }, 1000);
      this.activeInstalls.delete(key);
      this.progressBars.delete(key);
    }
  } else {
    setTimeout(checkComplete, 300);
  }
  \<close>
\<close>

definition complete_install :: "string \<Rightarrow> string \<Rightarrow> install \<Rightarrow> monitor \<Rightarrow> monitor" where
  "complete_install key packageName install m =
     (let m1 = bar_update (i_progressBar install)
                 \<lparr>bar_value = 100, bar_package = packageName, bar_status = ''Complete!'',
                  bar_eta = ''0s''\<rparr> m;
          m2 = (case i_progressInterval install of
                  None \<Rightarrow> m1
                | Some t \<Rightarrow> m1\<lparr>timers := (timers m1)(t := None)\<rparr>);
          m3 = m2\<lparr>timers := (timers m2)(next_id m2 \<mapsto> (1000, Linger (i_progressBar install))),
                   next_id := Suc (next_id m2)\<rparr>
      in m3\<lparr>activeInstalls := (activeInstalls m3)(key := None),
             progressBars := (progressBars m3)(key := None)\<rparr>)"

definition checkComplete :: "node_env \<Rightarrow> (path \<Rightarrow> bool) \<Rightarrow> string \<Rightarrow> string \<Rightarrow> string \<Rightarrow> monitor \<Rightarrow> monitor" where
  "checkComplete env existsSync key packageName projectName m =
     (case activeInstalls m key of
        None \<Rightarrow> m
      | Some install \<Rightarrow>
          if manifest_observed env existsSync (monitoredProjects m) packageName projectName
          then complete_install key packageName install m
          else m\<lparr>timers := (timers m)(next_id m \<mapsto>
                      (300, CheckComplete key packageName projectName)),
                 next_id := Suc (next_id m)\<rparr>)"

text \<open>
  The event loop running the pending timer \<open>tid\<close>: an interval stays pending, a
  timeout is consumed. The callback of \<open>Linger\<close> is
  \<open>this.multibar.remove(install.progressBar)\<close>.
\<close>

definition fire_timer :: "node_env \<Rightarrow> (path \<Rightarrow> bool) \<Rightarrow> int \<Rightarrow> nat \<Rightarrow> monitor \<Rightarrow> monitor" where
  "fire_timer env existsSync now tid m =
     (case timers m tid of
        None \<Rightarrow> m
      | Some (delay, ProgressInterval key packageName install) \<Rightarrow>
          progress_tick now tid key packageName install m
      | Some (delay, CheckComplete key packageName projectName) \<Rightarrow>
          checkComplete env existsSync key packageName projectName
            (m\<lparr>timers := (timers m)(tid := None)\<rparr>)
      | Some (delay, Linger b) \<Rightarrow>
          m\<lparr>timers := (timers m)(tid := None), multibar := remove1 b (multibar m)\<rparr>)"

section \<open>Watch subscriptions and their callbacks\<close>

text \<open>\<open>set.add(x)\<close> on a \<open>Set\<close> kept in insertion order.\<close>

definition Set_add :: "'a \<Rightarrow> 'a list \<Rightarrow> 'a list" where
  "Set_add x xs = (if x \<in> set xs then xs else xs @ [x])"

text \<open>
  \<^verbatim>\<open>
  async watchProjectDirectoryWithProgress(projectPath) {
    try {
      const nodeModulesPath = path.join(projectPath, 'node_modules');
      if (fs.existsSync(nodeModulesPath)) {
        const watcher = chokidar.watch(nodeModulesPath, { ... });
        watcher.on('addDir', async (dirPath) => { ... });
        ...
      }
      const packageJsonPath = path.join(projectPath, 'package.json');
      if (await fs.pathExists(packageJsonPath)) {
        const packageWatcher = chokidar.watch(packageJsonPath, { ... });
        ...
      }
    } catch (error) { ... }
  }
  \<close>
  \<open>chokidar.watch\<close> is taken to succeed. The second subscription is made after an
  \<open>await\<close>; nothing that runs in between reads the subscriptions, so both are
  made in one step here.
\<close>

definition watchProjectDirectoryWithProgress :: "(path \<Rightarrow> bool) \<Rightarrow> string \<Rightarrow> monitor \<Rightarrow> monitor" where
  "watchProjectDirectoryWithProgress exists projectPath m =
     (let m1 = (if exists [projectPath, ''node_modules'']
                then m\<lparr>watchers := watchers m @ [NodeModulesWatch projectPath]\<rparr>
                else m)
      in if exists [projectPath, ''package.json'']
         then m1\<lparr>watchers := watchers m1 @ [PackageJsonWatch projectPath]\<rparr>
         else m1)"

text \<open>
  The body of the registration loop of \<open>fastFindAndMonitorProjects\<close>, for one
  manifest file found by the scan:
  \<^verbatim>\<open>
  const projectPath = path.dirname(packageJsonPath);
  if (!this.monitoredProjects.has(projectPath)) {
    this.monitoredProjects.add(projectPath);
    console.log(...);
    await this.watchProjectDirectoryWithProgress(projectPath);
  }
  \<close>
\<close>

definition register_project :: "node_env \<Rightarrow> (path \<Rightarrow> bool) \<Rightarrow> string \<Rightarrow> monitor \<Rightarrow> monitor" where
  "register_project env exists packageJsonPath m =
     (let projectPath = path_dirname env packageJsonPath in
      if projectPath \<notin> set (monitoredProjects m) then
        watchProjectDirectoryWithProgress exists projectPath
          (m\<lparr>monitoredProjects := Set_add projectPath (monitoredProjects m)\<rparr>)
      else m)"

text \<open>
  \<^verbatim>\<open>
  const batchSize = 5;
  for (let i = 0; i < allPackageJsonFiles.length; i += batchSize) {
    const batch = allPackageJsonFiles.slice(i, i + batchSize);
    const batchPromises = batch.map(async (packageJsonPath) => { ... });
    await Promise.allSettled(batchPromises);
  }
  \<close>
  The argument is \<open>allPackageJsonFiles\<close>, the outcome of the scan (empty when the
  function returned before the loop). The callbacks of a batch start in order, and each
  runs its test and its \<open>add\<close> before its first \<open>await\<close>.
\<close>

function batches :: "'a list \<Rightarrow> 'a list list" where
  "batches xs = (if xs = [] then [] else take 5 xs # batches (drop 5 xs))"
  by pat_completeness auto
termination
  by (relation "measure length") auto

declare batches.simps [simp del]

definition fastFindAndMonitorProjects :: "node_env \<Rightarrow> (path \<Rightarrow> bool) \<Rightarrow> string list \<Rightarrow> monitor \<Rightarrow> monitor" where
  "fastFindAndMonitorProjects env exists allPackageJsonFiles m =
     fold (\<lambda>batch. fold (register_project env exists) batch) (batches allPackageJsonFiles) m"

text \<open>
  The \<open>addDir\<close> callbacks. \<open>files\<close> is what the resolver reads while the callback
  awaits it.
  \<^verbatim>\<open>
  watcher.on('addDir', async (dirPath) => {           // watchProjectDirectoryWithProgress
    try {
      const packageName = path.basename(dirPath);
      const projectName = path.basename(projectPath);
      if (!packageName.startsWith('.')) {
        const chainInfo = await this.analyzeDependencyChain(packageName, projectPath);
        this.trackInstallationWithProgress(packageName, projectName, chainInfo);
      }
    } catch (error) { }
  });
  watcher.on('addDir', async (dirPath) => {           // watchNodeModulesWithProgress
    const packageName = path.basename(dirPath);
    if (!packageName.startsWith('.')) {
      const chainInfo = await this.analyzeDependencyChain(packageName);
      this.trackInstallationWithProgress(packageName, 'LOCAL', chainInfo);
    }
  });
  watcher.on('addDir', async (dirPath) => {           // watchGlobalNodeModules
    const packageName = path.basename(dirPath);
    if (!packageName.startsWith('.')) {
      const chainInfo = { type: 'user-requested', parent: null,
                          reason: 'Global installation' };
      this.trackInstallationWithProgress(packageName, 'GLOBAL', chainInfo);
    }
  });
  \<close>
\<close>

definition on_project_addDir :: "node_env \<Rightarrow> int \<Rightarrow> string \<Rightarrow> string \<Rightarrow> project_files \<Rightarrow> monitor \<Rightarrow> monitor" where
  "on_project_addDir env now projectPath dirPath files m =
     (let packageName = path_basename env dirPath;
          projectName = path_basename env projectPath
      in if \<not> startsWith packageName ''.'' then
           (case analyzeDependencyChain packageName files of
              Inl error \<Rightarrow> m
            | Inr chainInfo \<Rightarrow>
                trackInstallationWithProgress now packageName projectName chainInfo m)
         else m)"

definition on_local_addDir :: "node_env \<Rightarrow> int \<Rightarrow> string \<Rightarrow> project_files \<Rightarrow> monitor \<Rightarrow> monitor" where
  "on_local_addDir env now dirPath files m =
     (let packageName = path_basename env dirPath
      in if \<not> startsWith packageName ''.'' then
           (case analyzeDependencyChain packageName files of
              Inl error \<Rightarrow> m
            | Inr chainInfo \<Rightarrow>
                trackInstallationWithProgress now packageName ''LOCAL'' chainInfo m)
         else m)"

definition global_chain :: chain_info where
  "global_chain =
     \<lparr>ci_type = UserRequested, ci_parent = None, ci_reason = ''Global installation''\<rparr>"

definition on_global_addDir :: "node_env \<Rightarrow> int \<Rightarrow> string \<Rightarrow> monitor \<Rightarrow> monitor" where
  "on_global_addDir env now dirPath m =
     (let packageName = path_basename env dirPath
      in if \<not> startsWith packageName ''.'' then
           (let chainInfo = global_chain
            in trackInstallationWithProgress now packageName ''GLOBAL'' chainInfo m)
         else m)"

text \<open>
  \<^verbatim>\<open>
  watchGlobalNodeModules() {
    const globalNodeModules = this.getGlobalNodeModulesPath();
    if (fs.existsSync(globalNodeModules)) {
      const watcher = chokidar.watch(globalNodeModules, { ignoreInitial: true, depth: 1 });
      watcher.on('addDir', ...);
    }
  }
  watchNodeModulesWithProgress() {
    if (!fs.existsSync('node_modules')) return;
    const watcher = chokidar.watch('node_modules', { ignoreInitial: true, depth: 1 });
    watcher.on('addDir', ...);
  }
  watchPackageJson() {
    const watcher = chokidar.watch('package.json', { ignoreInitial: true });
    watcher.on('change', ...);
  }
  \<close>
\<close>

definition watchGlobalNodeModules :: "node_env \<Rightarrow> (path \<Rightarrow> bool) \<Rightarrow> monitor \<Rightarrow> monitor" where
  "watchGlobalNodeModules env exists m =
     (if exists (getGlobalNodeModulesPath env)
      then m\<lparr>watchers := watchers m @ [GlobalWatch]\<rparr>
      else m)"

definition watchNodeModulesWithProgress :: "(path \<Rightarrow> bool) \<Rightarrow> monitor \<Rightarrow> monitor" where
  "watchNodeModulesWithProgress exists m =
     (if \<not> exists [''node_modules''] then m
      else m\<lparr>watchers := watchers m @ [LocalNodeModulesWatch]\<rparr>)"

definition watchPackageJson :: "monitor \<Rightarrow> monitor" where
  "watchPackageJson m = m\<lparr>watchers := watchers m @ [LocalPackageJsonWatch]\<rparr>"

section \<open>Start-up and the event loop\<close>

text \<open>
  The three ways \<open>statusCommand\<close> starts a fresh monitor, as far as they touch the
  state above (\<open>analyzeDependencyChains\<close> and the process polls write nothing that
  is read here):
  \<^verbatim>\<open>
  // startUniversalMonitoring, startQuickUniversalMonitoring
  if (await fs.pathExists('package.json')) {
    this.monitoredProjects.add(process.cwd());
    await this.watchProjectDirectoryWithProgress(process.cwd());
  }
  \<close>
  then, universal: \<open>fastFindAndMonitorProjects\<close> and \<open>watchGlobalNodeModules\<close>;
  quick: \<open>watchGlobalNodeModules\<close>, the first scan coming later from a timer;
  local: \<open>watchPackageJson\<close> and \<open>watchNodeModulesWithProgress\<close>.
\<close>

definition monitor_cwd :: "node_env \<Rightarrow> (path \<Rightarrow> bool) \<Rightarrow> monitor \<Rightarrow> monitor" where
  "monitor_cwd env exists m =
     (if exists [''package.json''] then
        watchProjectDirectoryWithProgress exists (env_cwd env)
          (m\<lparr>monitoredProjects := Set_add (env_cwd env) (monitoredProjects m)\<rparr>)
      else m)"

definition startUniversalMonitoring :: "node_env \<Rightarrow> (path \<Rightarrow> bool) \<Rightarrow> string list \<Rightarrow> monitor \<Rightarrow> monitor" where
  "startUniversalMonitoring env exists allPackageJsonFiles m =
     watchGlobalNodeModules env exists
       (fastFindAndMonitorProjects env exists allPackageJsonFiles (monitor_cwd env exists m))"

definition startQuickUniversalMonitoring :: "node_env \<Rightarrow> (path \<Rightarrow> bool) \<Rightarrow> monitor \<Rightarrow> monitor" where
  "startQuickUniversalMonitoring env exists m =
     watchGlobalNodeModules env exists (monitor_cwd env exists m)"

definition startLocalMonitoring :: "(path \<Rightarrow> bool) \<Rightarrow> monitor \<Rightarrow> monitor" where
  "startLocalMonitoring exists m = watchNodeModulesWithProgress exists (watchPackageJson m)"

text \<open>
  \<open>statusCommand(options)\<close> on \<open>new NpmMonitor()\<close>, with \<open>uni\<close> and \<open>quick\<close>
  the two options and \<open>allPackageJsonFiles\<close> the outcome of the first scan.
\<close>

definition statusCommand :: "bool \<Rightarrow> bool \<Rightarrow> node_env \<Rightarrow> (path \<Rightarrow> bool) \<Rightarrow> string list \<Rightarrow> monitor" where
  "statusCommand uni quick env exists allPackageJsonFiles =
     (if uni then
        (if quick then startQuickUniversalMonitoring env exists new_monitor
         else startUniversalMonitoring env exists allPackageJsonFiles new_monitor)
      else startLocalMonitoring exists new_monitor)"

text \<open>
  What the event loop runs after start-up: the \<open>addDir\<close> callback of a subscription
  (with the directory reported, the time, and the files the resolver reads), a pending
  timer (with the time and the file system it sees), and the registration loop of a
  later scan (from the timers of the universal modes). The \<open>change\<close> callbacks of
  the \<open>package.json\<close> subscriptions print a line and call
  \<open>analyzeDependencyChains\<close>, which writes \<open>dependencyChains\<close> only: they leave
  the state as it is and are not events here.
\<close>

datatype event =
    AddDir watcher string int project_files
  | Fire nat int "path \<Rightarrow> bool"
  | Discovery "string list" "path \<Rightarrow> bool"

definition step :: "node_env \<Rightarrow> event \<Rightarrow> monitor \<Rightarrow> monitor" where
  "step env e m =
     (case e of
        AddDir w dirPath now files \<Rightarrow>
          (if w \<notin> set (watchers m) then m
           else (case w of
                   NodeModulesWatch projectPath \<Rightarrow>
                     on_project_addDir env now projectPath dirPath files m
                 | GlobalWatch \<Rightarrow> on_global_addDir env now dirPath m
                 | LocalNodeModulesWatch \<Rightarrow> on_local_addDir env now dirPath files m
                 | PackageJsonWatch projectPath \<Rightarrow> m
                 | LocalPackageJsonWatch \<Rightarrow> m))
      | Fire tid now existsSync \<Rightarrow> fire_timer env existsSync now tid m
      | Discovery allPackageJsonFiles exists \<Rightarrow>
          fastFindAndMonitorProjects env exists allPackageJsonFiles m)"

definition run :: "node_env \<Rightarrow> event list \<Rightarrow> monitor \<Rightarrow> monitor" where
  "run env events m = fold (step env) events m"

section \<open>Invariants of the monitor\<close>

text \<open>Identities in use are below \<open>next_id\<close>.\<close>

definition timers_fresh :: "monitor \<Rightarrow> bool" where
  "timers_fresh m \<longleftrightarrow> (\<forall>t. timers m t \<noteq> None \<longrightarrow> t < next_id m)"

definition shown_fresh :: "monitor \<Rightarrow> bool" where
  "shown_fresh m \<longleftrightarrow> (\<forall>b \<in> set (multibar m). b < next_id m)"

definition installs_fresh :: "monitor \<Rightarrow> bool" where
  "installs_fresh m \<longleftrightarrow>
     (\<forall>k i. activeInstalls m k = Some i \<longrightarrow> i_progressBar i < next_id m)"

definition lingers_fresh :: "monitor \<Rightarrow> bool" where
  "lingers_fresh m \<longleftrightarrow> (\<forall>t d b. timers m t = Some (d, Linger b) \<longrightarrow> b < next_id m)"

text \<open>
  \<open>progressBars\<close> mirrors \<open>activeInstalls\<close>; every active installation has a bar of
  its own, shown once and at most at 95; a bar at 100 is a completed one; a bar waiting
  for removal belongs to no active installation.
\<close>

definition bars_indexed :: "monitor \<Rightarrow> bool" where
  "bars_indexed m \<longleftrightarrow>
     (\<forall>k. progressBars m k = map_option i_progressBar (activeInstalls m k))"

definition bars_own :: "monitor \<Rightarrow> bool" where
  "bars_own m \<longleftrightarrow>
     (\<forall>k k' i i'. activeInstalls m k = Some i \<and> activeInstalls m k' = Some i' \<and>
        i_progressBar i = i_progressBar i' \<longrightarrow> k = k')"

definition bars_capped :: "monitor \<Rightarrow> bool" where
  "bars_capped m \<longleftrightarrow>
     (\<forall>k i. activeInstalls m k = Some i \<longrightarrow>
        (\<exists>b. bars m (i_progressBar i) = Some b \<and> bar_value b \<le> 95))"

definition bars_shown :: "monitor \<Rightarrow> bool" where
  "bars_shown m \<longleftrightarrow>
     distinct (multibar m) \<and>
     (\<forall>k i. activeInstalls m k = Some i \<longrightarrow> i_progressBar i \<in> set (multibar m))"

definition full_complete :: "monitor \<Rightarrow> bool" where
  "full_complete m \<longleftrightarrow>
     (\<forall>n b. bars m n = Some b \<and> bar_value b = 100 \<longrightarrow> bar_status b = ''Complete!'')"

definition lingers_done :: "monitor \<Rightarrow> bool" where
  "lingers_done m \<longleftrightarrow>
     (\<forall>t d b k i. timers m t = Some (d, Linger b) \<and> activeInstalls m k = Some i \<longrightarrow>
        i_progressBar i \<noteq> b)"

text \<open>
  Every active key has exactly one pending \<open>checkComplete\<close> and exactly one
  progress interval, the one its record names; no other key has any.
\<close>

definition polls_active :: "monitor \<Rightarrow> bool" where
  "polls_active m \<longleftrightarrow>
     (\<forall>t d k pn pj. timers m t = Some (d, CheckComplete k pn pj) \<longrightarrow>
        activeInstalls m k \<noteq> None)"

definition polls_unique :: "monitor \<Rightarrow> bool" where
  "polls_unique m \<longleftrightarrow>
     (\<forall>t t' d d' k pn pn' pj pj'. timers m t = Some (d, CheckComplete k pn pj) \<and>
        timers m t' = Some (d', CheckComplete k pn' pj') \<longrightarrow> t = t')"

definition intervals_owned :: "monitor \<Rightarrow> bool" where
  "intervals_owned m \<longleftrightarrow>
     (\<forall>t d k pn inst. timers m t = Some (d, ProgressInterval k pn inst) \<longrightarrow>
        (\<exists>i. activeInstalls m k = Some i \<and> i_progressInterval i = Some t \<and>
           i_progressBar i = i_progressBar inst))"

definition installs_polled :: "monitor \<Rightarrow> bool" where
  "installs_polled m \<longleftrightarrow>
     (\<forall>k i. activeInstalls m k = Some i \<longrightarrow>
        (\<exists>t d pn pj. timers m t = Some (d, CheckComplete k pn pj)))"

definition installs_ticking :: "monitor \<Rightarrow> bool" where
  "installs_ticking m \<longleftrightarrow>
     (\<forall>k i. activeInstalls m k = Some i \<longrightarrow>
        (\<exists>t d pn inst. i_progressInterval i = Some t \<and>
           timers m t = Some (d, ProgressInterval k pn inst)))"

definition tracker_ok :: "monitor \<Rightarrow> bool" where
  "tracker_ok m \<longleftrightarrow>
     timers_fresh m \<and> shown_fresh m \<and> installs_fresh m \<and> lingers_fresh m \<and>
     bars_indexed m \<and> bars_own m \<and> bars_capped m \<and> bars_shown m \<and>
     full_complete m \<and> lingers_done m \<and>
     polls_active m \<and> polls_unique m \<and> intervals_owned m \<and>
     installs_polled m \<and> installs_ticking m"

text \<open>
  No path is a member twice, no subscription is held twice, and a project
  subscription is on a member path.
\<close>

definition registry_ok :: "monitor \<Rightarrow> bool" where
  "registry_ok m \<longleftrightarrow>
     distinct (monitoredProjects m) \<and> distinct (watchers m) \<and>
     (\<forall>p. NodeModulesWatch p \<in> set (watchers m) \<or> PackageJsonWatch p \<in> set (watchers m)
        \<longrightarrow> p \<in> set (monitoredProjects m))"




section \<open>A POSIX environment\<close>

text \<open>
  \<open>path.basename\<close> and \<open>path.dirname\<close> as Node computes them on POSIX paths:
  trailing slashes are ignored, the base name is the last segment, the directory name
  is what stands before the slash in front of it (\<open>.\<close> or \<open>/\<close> when there is
  none). Used for the concrete runs below.
\<close>

definition is_slash :: "char \<Rightarrow> bool" where
  "is_slash c = (c = CHR ''/'')"

definition posix_basename :: "string \<Rightarrow> string" where
  "posix_basename p = rev (takeWhile (\<lambda>c. \<not> is_slash c) (dropWhile is_slash (rev p)))"

definition posix_dirname :: "string \<Rightarrow> string" where
  "posix_dirname p =
     (case p of
        [] \<Rightarrow> ''.''
      | c # rest \<Rightarrow>
          (let r = dropWhile (\<lambda>c. \<not> is_slash c) (dropWhile is_slash (rev rest))
           in if r = [] then (if is_slash c then ''/'' else ''.'')
              else if is_slash c \<and> tl r = [] then ''//''
              else c # rev (tl r)))"

definition posix_env :: "string \<Rightarrow> node_env" where
  "posix_env dir =
     \<lparr>env_platform = ''linux'', env_APPDATA = None, env_cwd = dir,
      path_basename = posix_basename, path_dirname = posix_dirname\<rparr>"

section \<open>Transitions in closed form\<close>

text \<open>
  The state after each kind of step, written as one update of the state before it:
  \<open>tracked\<close> after \<open>trackInstallationWithProgress\<close> on a key that is not active,
  \<open>ticked\<close> after the tick of a progress interval of an active key, \<open>repolled\<close>
  after a \<open>checkComplete\<close> that did not find the manifest file, \<open>completed\<close>
  after one that did, \<open>lingered\<close> after the removal of a completed bar. The lemmas
  \<open>track_new\<close> and \<open>fire_interval\<close> to \<open>fire_linger\<close> below prove that the
  code's functions give these states.
\<close>

definition tracked :: "int \<Rightarrow> string \<Rightarrow> string \<Rightarrow> chain_info \<Rightarrow> monitor \<Rightarrow> monitor" where
  "tracked now packageName projectName chainInfo m =
     (let key = install_key projectName packageName; n = next_id m;
          install = \<lparr>i_startTime = now, i_projectName = projectName, i_chainInfo = chainInfo,
                     i_progressBar = n, i_progressInterval = None\<rparr>
      in m\<lparr>bars := (bars m)(n \<mapsto> \<lparr>bar_value = 0, bar_package = packageName,
                 bar_status = getStatusText chainInfo, bar_eta = ''calculating...''\<rparr>),
           multibar := multibar m @ [n],
           progressBars := (progressBars m)(key \<mapsto> n),
           activeInstalls := (activeInstalls m)(key \<mapsto>
              install\<lparr>i_progressInterval := Some (Suc n)\<rparr>),
           timers := (timers m)(Suc n \<mapsto> (200, ProgressInterval key packageName install),
              Suc (Suc n) \<mapsto> (500, CheckComplete key packageName projectName)),
           next_id := Suc (Suc (Suc n))\<rparr>)"

definition ticked :: "int \<Rightarrow> string \<Rightarrow> install \<Rightarrow> monitor \<Rightarrow> monitor" where
  "ticked now packageName install m =
     bar_update (i_progressBar install)
       \<lparr>bar_value = progress_percentage (now - i_startTime install)
                       (estimateInstallDuration packageName),
        bar_package = packageName,
        bar_status = getStatusText (i_chainInfo install),
        bar_eta = formatETA (estimateInstallDuration packageName - (now - i_startTime install))\<rparr> m"

definition repolled :: "nat \<Rightarrow> string \<Rightarrow> string \<Rightarrow> string \<Rightarrow> monitor \<Rightarrow> monitor" where
  "repolled tid key packageName projectName m =
     m\<lparr>timers := ((timers m)(tid := None))(next_id m \<mapsto>
          (300, CheckComplete key packageName projectName)),
       next_id := Suc (next_id m)\<rparr>"

definition completed :: "nat \<Rightarrow> string \<Rightarrow> string \<Rightarrow> install \<Rightarrow> monitor \<Rightarrow> monitor" where
  "completed tid key packageName install m =
     complete_install key packageName install (m\<lparr>timers := (timers m)(tid := None)\<rparr>)"

definition lingered :: "nat \<Rightarrow> nat \<Rightarrow> monitor \<Rightarrow> monitor" where
  "lingered tid b m = m\<lparr>timers := (timers m)(tid := None), multibar := remove1 b (multibar m)\<rparr>"

text \<open>Project registration never makes one of the three other subscriptions.\<close>

definition only_projects :: "monitor \<Rightarrow> bool" where
  "only_projects m \<longleftrightarrow>
     GlobalWatch \<notin> set (watchers m) \<and> LocalNodeModulesWatch \<notin> set (watchers m) \<and>
     LocalPackageJsonWatch \<notin> set (watchers m)"

section \<open>Concrete runs\<close>

text \<open>
  A universal monitor in quick mode on a POSIX machine, started in \<open>/home/u/app\<close>.
  In \<open>chalk_detected\<close> only the global store exists at start-up and the directory
  \<open>chalk\<close> then appears in it at time 1000; \<open>chalk_installed\<close> is the file system
  once the manifest file of \<open>chalk\<close> is there. In \<open>app_started\<close> the current
  directory is a project with a \<open>node_modules\<close> directory.
\<close>

definition example_env :: node_env where
  "example_env = posix_env ''/home/u/app''"

definition global_store_only :: "path \<Rightarrow> bool" where
  "global_store_only p = (p = [''/usr/local/lib/node_modules''])"

definition no_files :: project_files where
  "no_files = \<lparr>manifest_json = None, lock_exists = False, lock_json = None\<rparr>"

definition chalk_detected :: monitor where
  "chalk_detected =
     run example_env [AddDir GlobalWatch ''/usr/local/lib/node_modules/chalk'' 1000 no_files]
       (statusCommand True True example_env global_store_only [])"


definition app_exists :: "path \<Rightarrow> bool" where
  "app_exists p =
     (p = [''package.json''] \<or> p = [''/home/u/app'', ''node_modules''] \<or>
      p = [''/home/u/app'', ''package.json''])"

definition app_started :: monitor where
  "app_started = run example_env [] (statusCommand True True example_env app_exists [])"








chapter \<open>Properties\<close>

section \<open>String facts\<close>

lemma startsWith_iff: "startsWith s pre \<longleftrightarrow> (\<exists>post. s = pre @ post)"
  unfolding startsWith_def by (metis append_eq_conv_conj append_take_drop_id)

lemma str_includes_iff: "str_includes s sub \<longleftrightarrow> substring_of sub s"
proof (induction s)
  case Nil
  show ?case by (auto simp: substring_of_def)
next
  case (Cons c cs)
  have "substring_of sub (c # cs) \<longleftrightarrow> (\<exists>post. c # cs = sub @ post) \<or> substring_of sub cs"
    unfolding substring_of_def
    by (auto simp: Cons_eq_append_conv)
  with Cons show ?case by (simp add: startsWith_iff)
qed

lemma substring_ofI: "name = before @ fragment @ after \<Longrightarrow> substring_of fragment name"
  unfolding substring_of_def by blast

section \<open>The resolver\<close>


text \<open>
  Claim C1: for every package name that appears among the manifest's
  \<open>dependencies\<close> or \<open>devDependencies\<close>, \<open>analyzeDependencyChain\<close> returns
  \<open>'user-requested'\<close> with parent \<open>null\<close>.

  The code tests \<open>allDeps[packageName]\<close> for truthiness, not for presence. A
  dependency declared with the empty version range (\<open>"foo": ""\<close>, which npm reads as
  \<open>*\<close>) is present and falsy: the check fails, and with no lock file the result is
  \<open>'unknown'\<close>. (\<open>analyzeDependencyChains\<close>, which walks \<open>Object.entries(allDeps)\<close>,
  records the same package as user-requested.)
\<close>

theorem C1_empty_version_not_user_requested:
  "map_of (spread (Some (JObj [(''foo'', JStr [])]))) ''foo'' = Some (JStr []) \<and>
   analyzeDependencyChain ''foo''
     \<lparr>manifest_json = Some (JObj [(''dependencies'', JObj [(''foo'', JStr [])])]),
      lock_exists = False, lock_json = None\<rparr>
   = Inr \<lparr>ci_type = Unknown, ci_parent = None, ci_reason = ''Installation source unknown''\<rparr>"
  by (simp add: analyzeDependencyChain_def try_catch_def analyze_try_def readJson_def
      manifest_check_def spread_def plain_object_truthy_def lock_lookup_def)

text \<open>
  Claim C4: in a flat path table, a key that ends with
  \<open>/node_modules/<packageName>\<close> resolves to \<open>'dependency'\<close> with the path segment
  just before that suffix as parent.

  The code removes the first occurrence of \<open>/node_modules/<packageName>\<close> from the
  key, not the suffix. In the key below the first occurrence is the head of
  \<open>/node_modules/react-dom\<close>: what is left ends in the package's own name, and the
  parent reported is \<open>react\<close> where the segment before the suffix is
  \<open>react-dom\<close>.
\<close>

theorem C4_first_occurrence_replaced:
  "endsWith ''node_modules/x/node_modules/react-dom/node_modules/react''
     (''/node_modules/'' @ ''react'')
   \<and> last (split_on (CHR ''/'') ''node_modules/x/node_modules/react-dom'') = ''react-dom''
   \<and> findPackageInLock ''react''
        (JObj [(''packages'',
          JObj [(''node_modules/x/node_modules/react-dom/node_modules/react'', JObj [])])]) None
      = Inr (Some (Some ''react''))
   \<and> analyzeDependencyChain ''react''
        \<lparr>manifest_json = Some (JObj []), lock_exists = True,
         lock_json = Some (JObj [(''packages'',
          JObj [(''node_modules/x/node_modules/react-dom/node_modules/react'', JObj [])])])\<rparr>
      = Inr \<lparr>ci_type = Dependency, ci_parent = Some ''react'',
             ci_reason = ''Dependency of react''\<rparr>"
  by (simp add: findPackageInLock.simps packages_entry_def endsWith_def startsWith_def
      analyzeDependencyChain_def try_catch_def analyze_try_def readJson_def
      manifest_check_def spread_def plain_object_truthy_def lock_lookup_def
      object_prototype_names_def parent_or_unknown_def)

subsection \<open>The nested tree\<close>

text \<open>
  On a lock object with no flat table and a nested tree under \<open>dependencies\<close>,
  \<open>findPackageInLock\<close> returns the first entry of the depth-first listing, with its
  ancestor. Induction on the depth of the tree, and inside on the entries of one level.
\<close>

lemma nested_search:
  "nested_tree ds \<Longrightarrow> get_prop lockJson ''packages'' = Inr pk \<Longrightarrow> \<not> truthy pk \<Longrightarrow>
   get_prop lockJson ''dependencies'' = Inr (Some ds) \<Longrightarrow>
   findPackageInLock packageName lockJson parent =
     Inr (map_of (spec_occurrences parent (tree_of ds)) packageName)"
proof (induction "depth ds" arbitrary: ds lockJson parent pk rule: less_induct)
  case less
  from less.prems(1) obtain kvs where ds: "ds = JObj kvs"
    by (cases ds) (auto simp: nested_tree.simps)
  let ?body = "\<lambda>(depName, depInfo).
      if depName = packageName then Inr (Some parent)
      else (case get_prop depInfo ''dependencies'' of
              Inl e \<Rightarrow> Inl e
            | Inr None \<Rightarrow> Inr None
            | Inr (Some sub) \<Rightarrow>
                if is_truthy sub then
                  findPackageInLock packageName (JObj [(''dependencies'', sub)]) (Some depName)
                else Inr None)"
  let ?node = "\<lambda>(depName, depInfo).
            (depName,
             DepTree (case get_prop depInfo ''dependencies'' of
                        Inr (Some sub) \<Rightarrow> tree_of sub
                      | _ \<Rightarrow> []))"
  have loop: "set es \<subseteq> set kvs \<Longrightarrow>
      for_of ?body es = Inr (map_of (spec_occurrences parent (map ?node es)) packageName)" for es
  proof (induction es)
    case Nil
    show ?case by simp
  next
    case (Cons e es)
    obtain depName depInfo where e: "e = (depName, depInfo)" by (cases e)
    from Cons.prems e have mem: "(depName, depInfo) \<in> set kvs" by simp
    from Cons have IH: "for_of ?body es =
        Inr (map_of (spec_occurrences parent (map ?node es)) packageName)" by simp
    from less.prems(1) ds mem obtain fs where fs: "depInfo = JObj fs"
      and sub_ok: "\<And>sub. map_of fs ''dependencies'' = Some sub \<Longrightarrow> nested_tree sub"
      by (cases depInfo)
        (auto simp: nested_tree.simps [of "JObj kvs"] list_all_iff split: option.splits)
    show ?case
    proof (cases "depName = packageName")
      case True
      with e show ?thesis by simp
    next
      case False
      show ?thesis
      proof (cases "map_of fs ''dependencies''")
        case None
        with e fs False IH show ?thesis by simp
      next
        case (Some sub)
        from sub_ok [OF Some] have nsub: "nested_tree sub" .
        then have tsub: "is_truthy sub" by (cases sub) (auto simp: nested_tree.simps)
        from Some fs mem ds have "depth sub < depth ds"
          using depth_map_of depth_member by fastforce
        from less.hyps [OF this nsub, of "JObj [(''dependencies'', sub)]" None "Some depName"]
        have rec: "findPackageInLock packageName (JObj [(''dependencies'', sub)]) (Some depName) =
            Inr (map_of (spec_occurrences (Some depName) (tree_of sub)) packageName)"
          by simp
        from e fs False Some tsub rec IH show ?thesis
          by (auto simp: map_add_def split: option.splits)
      qed
    qed
  qed
  have "findPackageInLock packageName lockJson parent = for_of ?body kvs"
    using less.prems(2,3,4) ds
    by (subst findPackageInLock.simps) (auto split: option.splits)
  also have "\<dots> = Inr (map_of (spec_occurrences parent (map ?node kvs)) packageName)"
    by (rule loop) simp
  also have "map ?node kvs = tree_of ds"
    using ds by (subst tree_of.simps) simp
  finally show ?case .
qed

text \<open>
  Claim C5: for a lock file in nested-tree format, resolving a package searches the
  \<open>dependencies\<close> tree depth-first and, when the package is found, returns
  \<open>'dependency'\<close> with the nearest ancestor's name as parent (\<open>null\<close> for a
  top-level entry); for the tree \<open>{"a": {"dependencies": {"b": {}}}}\<close>, resolving
  \<open>b\<close> gives parent \<open>a\<close>.

  Stated for the second step of the resolver: the manifest was read and does not list
  the package, the lock file exists and was read, it has no \<open>packages\<close> table, and
  its \<open>dependencies\<close> is a nested tree. The result is then decided by the
  specification's search of that tree: not found gives \<open>'unknown'\<close>, found gives
  \<open>'dependency'\<close> with the ancestor the search tracked.
\<close>

theorem C5_nested_tree_search:
  assumes "manifest_json files = Some packageJson"
    and "manifest_check packageName packageJson = Inr False"
    and "lock_exists files"
    and "lock_json files = Some lockJson"
    and "get_prop lockJson ''packages'' = Inr None"
    and "get_prop lockJson ''dependencies'' = Inr (Some ds)"
    and "nested_tree ds"
  shows "analyzeDependencyChain packageName files =
     Inr (case spec_search packageName (tree_of ds) of
            None \<Rightarrow> source_unknown
          | Some ancestor \<Rightarrow>
              \<lparr>ci_type = Dependency, ci_parent = ancestor,
               ci_reason = ''Dependency of '' @ parent_or_unknown ancestor\<rparr>)"
proof -
  have "findPackageInLock packageName lockJson None = Inr (spec_search packageName (tree_of ds))"
    unfolding spec_search_def
    by (rule nested_search [OF assms(7) assms(5) _ assms(6)]) simp
  with assms(1-4) show ?thesis
    by (simp add: analyzeDependencyChain_def try_catch_def analyze_try_def readJson_def
        lock_lookup_def source_unknown_def split: option.splits)
qed

theorem C5_witness:
  "analyzeDependencyChain ''b''
     \<lparr>manifest_json = Some (JObj []), lock_exists = True,
      lock_json = Some (JObj [(''dependencies'',
        JObj [(''a'', JObj [(''dependencies'', JObj [(''b'', JObj [])])])])])\<rparr>
   = Inr \<lparr>ci_type = Dependency, ci_parent = Some ''a'', ci_reason = ''Dependency of a''\<rparr>"
proof -
  let ?ds = "JObj [(''a'', JObj [(''dependencies'', JObj [(''b'', JObj [])])])]"
  let ?files = "\<lparr>manifest_json = Some (JObj []), lock_exists = True,
      lock_json = Some (JObj [(''dependencies'', ?ds)])\<rparr>"
  have chk: "manifest_check ''b'' (JObj []) = Inr False"
    by (simp add: manifest_check_def spread_def plain_object_truthy_def object_prototype_names_def)
  have nt: "nested_tree ?ds"
    by (simp add: nested_tree.simps)
  have srch: "spec_search ''b'' (tree_of ?ds) = Some (Some ''a'')"
    by (simp add: spec_search_def tree_of.simps)
  from C5_nested_tree_search [of ?files "JObj []" "''b''" "JObj [(''dependencies'', ?ds)]" ?ds,
      OF _ chk _ _ _ _ nt]
  show ?thesis by (simp add: srch parent_or_unknown_def)
qed



section \<open>The duration heuristic\<close>

text \<open>
  Claim C9: \<open>estimateInstallDuration\<close> returns 8000 when the name contains one of
  the large-package fragments, else 4000 when it contains one of the medium-package
  fragments, else 2000; the test is substring containment, not equality of names.
\<close>

theorem C9_estimate_by_substring:
  "estimateInstallDuration packageName =
     (if \<exists>pkg \<in> set largePackages. substring_of pkg packageName then 8000
      else if \<exists>pkg \<in> set mediumPackages. substring_of pkg packageName then 4000
      else 2000)"
  by (simp add: estimateInstallDuration_def list_ex_iff str_includes_iff)

theorem C9_witness:
  "estimateInstallDuration ''preact-router'' = 8000 \<and> ''preact-router'' \<notin> set largePackages"
proof -
  have "substring_of ''react'' ''preact-router''"
    by (rule substring_ofI [of _ "''p''" _ "''-router''"]) simp
  then have "\<exists>pkg \<in> set largePackages. substring_of pkg ''preact-router''"
    by (simp add: largePackages_def)
  with C9_estimate_by_substring [of "''preact-router''"]
  have "estimateInstallDuration ''preact-router'' = 8000" by simp
  then show ?thesis by (simp add: largePackages_def)
qed

section \<open>Transitions of the tracker\<close>

lemma track_active:
  "activeInstalls m (install_key projectName packageName) \<noteq> None \<Longrightarrow>
   trackInstallationWithProgress now packageName projectName chainInfo m = m"
  by (simp add: trackInstallationWithProgress_def)

lemma track_new:
  "activeInstalls m (install_key projectName packageName) = None \<Longrightarrow>
   trackInstallationWithProgress now packageName projectName chainInfo m =
     tracked now packageName projectName chainInfo m"
  by (simp add: trackInstallationWithProgress_def simulateInstallProgress_def
      checkInstallationCompleteWithProgress_def tracked_def Let_def)

lemma fire_none: "timers m tid = None \<Longrightarrow> fire_timer env ex now tid m = m"
  by (simp add: fire_timer_def)

lemma fire_interval:
  "timers m tid = Some (d, ProgressInterval key pn inst) \<Longrightarrow> activeInstalls m key \<noteq> None \<Longrightarrow>
   fire_timer env ex now tid m = ticked now pn inst m"
  by (auto simp: fire_timer_def progress_tick_def ticked_def Let_def)

lemma fire_poll_fail:
  "timers m tid = Some (d, CheckComplete key pn pj) \<Longrightarrow> activeInstalls m key = Some install \<Longrightarrow>
   \<not> manifest_observed env ex (monitoredProjects m) pn pj \<Longrightarrow>
   fire_timer env ex now tid m = repolled tid key pn pj m"
  by (simp add: fire_timer_def checkComplete_def repolled_def)

lemma fire_poll_success:
  "timers m tid = Some (d, CheckComplete key pn pj) \<Longrightarrow> activeInstalls m key = Some install \<Longrightarrow>
   manifest_observed env ex (monitoredProjects m) pn pj \<Longrightarrow>
   fire_timer env ex now tid m = completed tid key pn install m"
  by (simp add: fire_timer_def checkComplete_def completed_def)

lemma fire_linger:
  "timers m tid = Some (d, Linger b) \<Longrightarrow> fire_timer env ex now tid m = lingered tid b m"
  by (simp add: fire_timer_def lingered_def)

subsection \<open>Rounding to a double\<close>


lemma pow2_diff: "pow2 (i - j) = pow2 i / pow2 j"
proof -
  have "pow2 e = 2 powi e" for e
    by (simp add: pow2_def power_int_def inverse_eq_divide power_one_over)
  then show ?thesis by (simp add: power_int_diff)
qed

lemma pow2_nat: "0 \<le> e \<Longrightarrow> pow2 e = 2 ^ nat e"
  by (simp add: pow2_def)

lemma binary_exponent_le:
  assumes "0 < x"
  shows "pow2 (binary_exponent x) \<le> x"
proof -
  obtain a b where q: "quotient_of x = (a, b)" by (cases "quotient_of x")
  then have b: "0 < b" and x: "x = of_int a / of_int b"
    using quotient_of_denom_pos [OF q] quotient_of_div [OF q] by simp_all
  with assms have a: "0 < a" by (simp add: zero_less_divide_iff)
  let ?d = "bitlen a - bitlen b"
  from bitlen_bounds [OF a] have la: "(2::int) ^ nat (bitlen a - 1) \<le> a" by simp
  from bitlen_bounds [OF b] have lb: "b < (2::int) ^ nat (bitlen b)" by simp
  have na: "0 \<le> bitlen a - 1" using a by (simp add: bitlen_alt_def)
  have nb: "0 \<le> bitlen b" by (rule bitlen_nonneg)
  have "pow2 (?d - 1) = pow2 (bitlen a - 1) / pow2 (bitlen b)"
    using pow2_diff [of "bitlen a - 1" "bitlen b"] by (simp add: algebra_simps)
  also have "\<dots> = 2 ^ nat (bitlen a - 1) / 2 ^ nat (bitlen b)"
    using na nb by (simp add: pow2_nat)
  also have "\<dots> \<le> of_int a / of_int b"
  proof -
    from la have 1: "(2::rat) ^ nat (bitlen a - 1) \<le> of_int a"
      by (metis of_int_le_iff of_int_numeral of_int_power)
    from lb have 2: "of_int b \<le> (2::rat) ^ nat (bitlen b)"
      by (metis less_imp_le of_int_le_iff of_int_numeral of_int_power)
    from b have 3: "(0::rat) < of_int b" by simp
    from a have 4: "(0::rat) \<le> of_int a" by simp
    from 4 1 3 2 show ?thesis by (rule frac_le)
  qed
  finally have low: "pow2 (?d - 1) \<le> x" using x by simp
  show ?thesis
    using low by (simp add: binary_exponent_def q Let_def)
qed





lemma binary_exponent_gt:
  assumes "0 < x"
  shows "x < pow2 (binary_exponent x + 1)"
proof -
  obtain a b where q: "quotient_of x = (a, b)" by (cases "quotient_of x")
  then have b: "0 < b" and x: "x = of_int a / of_int b"
    using quotient_of_denom_pos [OF q] quotient_of_div [OF q] by simp_all
  with assms have a: "0 < a" by (simp add: zero_less_divide_iff)
  let ?d = "bitlen a - bitlen b"
  from bitlen_bounds [OF a] have ua: "a < (2::int) ^ nat (bitlen a)" by simp
  from bitlen_bounds [OF b] have lb: "(2::int) ^ nat (bitlen b - 1) \<le> b" by simp
  have na: "0 \<le> bitlen a" by (rule bitlen_nonneg)
  have nb: "0 \<le> bitlen b - 1" using b by (simp add: bitlen_alt_def)
  have "of_int a / of_int b < (2::rat) ^ nat (bitlen a) / 2 ^ nat (bitlen b - 1)"
  proof -
    from ua have 1: "of_int a < (2::rat) ^ nat (bitlen a)"
      by (metis of_int_less_iff of_int_numeral of_int_power)
    from lb have 2: "(2::rat) ^ nat (bitlen b - 1) \<le> of_int b"
      by (metis of_int_le_iff of_int_numeral of_int_power)
    have 3: "(0::rat) < 2 ^ nat (bitlen b - 1)" by simp
    from a have 4: "(0::rat) \<le> of_int a" by simp
    from 4 1 3 2 show ?thesis by (rule frac_less)
  qed
  also have "\<dots> = pow2 (bitlen a) / pow2 (bitlen b - 1)"
    using na nb by (simp add: pow2_nat)
  also have "\<dots> = pow2 (?d + 1)"
    using pow2_diff [of "bitlen a" "bitlen b - 1"] by (simp add: algebra_simps)
  finally have up: "x < pow2 (?d + 1)" using x by simp
  show ?thesis
    using up by (auto simp: binary_exponent_def q Let_def not_le)
qed

lemma pow2_mono: "i \<le> j \<Longrightarrow> pow2 i \<le> pow2 j"
proof -
  have "pow2 e = 2 powi e" for e
    by (simp add: pow2_def power_int_def inverse_eq_divide power_one_over)
  then show "i \<le> j \<Longrightarrow> pow2 i \<le> pow2 j" by (simp add: power_int_increasing)
qed

lemma round_half_even_of_int: "round_half_even (of_int n) = n"
  by (simp add: round_half_even_def Let_def)

lemma round_double_of_int:
  assumes "\<bar>n\<bar> < 2 ^ 53"
  shows "round_double (of_int n) = of_int n"
proof (cases "n = 0")
  case True
  then show ?thesis by (simp add: round_double_def)
next
  case False
  let ?x = "of_int n :: rat"
  let ?e = "binary_exponent \<bar>?x\<bar>"
  from False have pos: "0 < \<bar>?x\<bar>" by simp
  have "\<bar>?x\<bar> < 2 ^ 53"
  proof -
    from assms have "(of_int \<bar>n\<bar> :: rat) < of_int (2 ^ 53)" by (simp only: of_int_less_iff)
    then show ?thesis by simp
  qed
  with binary_exponent_le [OF pos] have "pow2 ?e < pow2 53" by (simp add: pow2_def)
  then have e: "?e \<le> 52" using pow2_mono [of 53 ?e] by (cases "?e \<le> 52") auto
  define k where "k = nat (52 - ?e)"
  have u: "pow2 (?e - 52) = 1 / 2 ^ k"
  proof (cases "?e = 52")
    case True
    then show ?thesis by (simp add: pow2_def k_def)
  next
    case False
    with e have "?e - 52 < 0" by simp
    then show ?thesis by (simp add: pow2_def k_def)
  qed
  have "?x / pow2 (?e - 52) = of_int (n * 2 ^ k)" by (simp add: u)
  then have "round_half_even (?x / pow2 (?e - 52)) = n * 2 ^ k"
    by (simp only: round_half_even_of_int)
  then show ?thesis using False by (simp add: round_double_def Let_def u)
qed

lemma progress_percentage_le: "progress_percentage e d \<le> 95"
  by (simp add: progress_percentage_def)


lemma completed_activeInstalls [simp]:
  "activeInstalls (completed tid key pn install m) = (activeInstalls m)(key := None)"
  by (simp add: completed_def complete_install_def bar_update_def Let_def split: option.splits)

lemma completed_next_id [simp]:
  "next_id (completed tid key pn install m) = Suc (next_id m)"
  by (simp add: completed_def complete_install_def bar_update_def Let_def split: option.splits)

lemma completed_timers:
  "timers (completed tid key pn install m) =
     (case i_progressInterval install of
        None \<Rightarrow> (timers m)(tid := None)
      | Some t \<Rightarrow> (timers m)(tid := None, t := None))
     (next_id m \<mapsto> (1000, Linger (i_progressBar install)))"
  by (simp add: completed_def complete_install_def bar_update_def Let_def split: option.splits)

lemma installs_polledD:
  "installs_polled m \<Longrightarrow> activeInstalls m k = Some i \<Longrightarrow>
   \<exists>t d pn pj. timers m t = Some (d, CheckComplete k pn pj)"
  unfolding installs_polled_def by blast

lemma installs_tickingD:
  "installs_ticking m \<Longrightarrow> activeInstalls m k = Some i \<Longrightarrow>
   \<exists>t d pn inst. i_progressInterval i = Some t \<and>
      timers m t = Some (d, ProgressInterval k pn inst)"
  unfolding installs_ticking_def by blast

lemma timers_freshD: "timers_fresh m \<Longrightarrow> timers m t = Some x \<Longrightarrow> t < next_id m"
  unfolding timers_fresh_def by auto


subsection \<open>Preservation by \<open>tracked\<close>\<close>

lemma timers_fresh_tracked:
  "timers_fresh m \<Longrightarrow> timers_fresh (tracked now pn pj ci m)"
  unfolding timers_fresh_def tracked_def Let_def
  by (fastforce simp: less_Suc_eq split: if_splits option.splits)

lemma shown_fresh_tracked:
  "shown_fresh m \<Longrightarrow> shown_fresh (tracked now pn pj ci m)"
  unfolding shown_fresh_def tracked_def Let_def
  by (fastforce simp: less_Suc_eq split: if_splits option.splits)

lemma installs_fresh_tracked:
  "installs_fresh m \<Longrightarrow> installs_fresh (tracked now pn pj ci m)"
  unfolding installs_fresh_def tracked_def Let_def
  by (fastforce simp: less_Suc_eq split: if_splits option.splits)

lemma lingers_fresh_tracked:
  "lingers_fresh m \<Longrightarrow> lingers_fresh (tracked now pn pj ci m)"
  unfolding lingers_fresh_def tracked_def Let_def
  by (fastforce simp: less_Suc_eq split: if_splits option.splits)

lemma bars_indexed_tracked:
  "bars_indexed m \<Longrightarrow> bars_indexed (tracked now pn pj ci m)"
  unfolding bars_indexed_def tracked_def Let_def
  by (fastforce simp: less_Suc_eq split: if_splits option.splits)

lemma bars_own_tracked:
  "bars_own m \<Longrightarrow> installs_fresh m \<Longrightarrow> bars_own (tracked now pn pj ci m)"
  unfolding bars_own_def installs_fresh_def tracked_def Let_def
  by (fastforce simp: less_Suc_eq split: if_splits option.splits)

lemma bars_capped_tracked:
  "bars_capped m \<Longrightarrow> installs_fresh m \<Longrightarrow> bars_capped (tracked now pn pj ci m)"
  unfolding bars_capped_def installs_fresh_def tracked_def Let_def
  by (fastforce simp: less_Suc_eq split: if_splits option.splits)

lemma bars_shown_tracked:
  "bars_shown m \<Longrightarrow> shown_fresh m \<Longrightarrow> bars_shown (tracked now pn pj ci m)"
  unfolding bars_shown_def shown_fresh_def tracked_def Let_def
  by (fastforce simp: less_Suc_eq split: if_splits option.splits)

lemma full_complete_tracked:
  "full_complete m \<Longrightarrow> full_complete (tracked now pn pj ci m)"
  unfolding full_complete_def tracked_def Let_def
  by (fastforce simp: less_Suc_eq split: if_splits option.splits)

lemma lingers_done_tracked:
  "lingers_done m \<Longrightarrow> lingers_fresh m \<Longrightarrow> lingers_done (tracked now pn pj ci m)"
  unfolding lingers_done_def lingers_fresh_def tracked_def Let_def
  by (fastforce simp: less_Suc_eq split: if_splits option.splits)

lemma polls_active_tracked:
  "polls_active m \<Longrightarrow> polls_active (tracked now pn pj ci m)"
  unfolding polls_active_def tracked_def Let_def
  by (fastforce simp: less_Suc_eq split: if_splits option.splits)

lemma polls_unique_tracked:
  "polls_unique m \<Longrightarrow> polls_active m \<Longrightarrow> activeInstalls m (install_key pj pn) = None \<Longrightarrow> polls_unique (tracked now pn pj ci m)"
  unfolding polls_unique_def polls_active_def tracked_def Let_def
  by (fastforce simp: less_Suc_eq split: if_splits option.splits)

lemma intervals_owned_tracked:
  "intervals_owned m \<Longrightarrow> activeInstalls m (install_key pj pn) = None \<Longrightarrow> intervals_owned (tracked now pn pj ci m)"
  unfolding intervals_owned_def tracked_def Let_def
  by (fastforce simp: less_Suc_eq split: if_splits option.splits)

lemma installs_polled_tracked:
  assumes "installs_polled m" and "timers_fresh m"
  shows "installs_polled (tracked now pn pj ci m)"
proof (unfold installs_polled_def, intro allI impI)
  fix k i
  assume a: "activeInstalls (tracked now pn pj ci m) k = Some i"
  show "\<exists>t d pn' pj'. timers (tracked now pn pj ci m) t = Some (d, CheckComplete k pn' pj')"
  proof (cases "k = install_key pj pn")
    case True
    have "timers (tracked now pn pj ci m) (Suc (Suc (next_id m))) =
        Some (500, CheckComplete (install_key pj pn) pn pj)"
      by (simp add: tracked_def Let_def)
    with True show ?thesis by blast
  next
    case False
    with a have "activeInstalls m k = Some i" by (simp add: tracked_def Let_def)
    from installs_polledD [OF assms(1) this] obtain t d pn' pj'
      where t: "timers m t = Some (d, CheckComplete k pn' pj')" by blast
    from timers_freshD [OF assms(2) t] have "t < next_id m" .
    with t have "timers (tracked now pn pj ci m) t = Some (d, CheckComplete k pn' pj')"
      by (simp add: tracked_def Let_def)
    then show ?thesis by blast
  qed
qed

lemma installs_ticking_tracked:
  assumes "installs_ticking m" and "timers_fresh m"
  shows "installs_ticking (tracked now pn pj ci m)"
proof (unfold installs_ticking_def, intro allI impI)
  fix k i
  assume a: "activeInstalls (tracked now pn pj ci m) k = Some i"
  show "\<exists>t d pn' inst. i_progressInterval i = Some t \<and>
      timers (tracked now pn pj ci m) t = Some (d, ProgressInterval k pn' inst)"
  proof (cases "k = install_key pj pn")
    case True
    with a have "i_progressInterval i = Some (Suc (next_id m))"
      by (auto simp: tracked_def Let_def)
    moreover have "\<exists>inst. timers (tracked now pn pj ci m) (Suc (next_id m)) =
        Some (200, ProgressInterval (install_key pj pn) pn inst)"
      by (simp add: tracked_def Let_def)
    ultimately show ?thesis using True by blast
  next
    case False
    with a have "activeInstalls m k = Some i" by (simp add: tracked_def Let_def)
    from installs_tickingD [OF assms(1) this] obtain t d pn' inst
      where i: "i_progressInterval i = Some t"
        and t: "timers m t = Some (d, ProgressInterval k pn' inst)" by blast
    from timers_freshD [OF assms(2) t] have "t < next_id m" .
    with t have "timers (tracked now pn pj ci m) t = Some (d, ProgressInterval k pn' inst)"
      by (simp add: tracked_def Let_def)
    with i show ?thesis by blast
  qed
qed

lemma tracker_ok_tracked:
  assumes ok: "tracker_ok m"
    and new: "activeInstalls m (install_key pj pn) = None"
  shows "tracker_ok (tracked now pn pj ci m)"
proof -
  from ok have timers_fresh: "timers_fresh m"
    and shown_fresh: "shown_fresh m"
    and installs_fresh: "installs_fresh m"
    and lingers_fresh: "lingers_fresh m"
    and bars_indexed: "bars_indexed m"
    and bars_own: "bars_own m"
    and bars_capped: "bars_capped m"
    and bars_shown: "bars_shown m"
    and full_complete: "full_complete m"
    and lingers_done: "lingers_done m"
    and polls_active: "polls_active m"
    and polls_unique: "polls_unique m"
    and intervals_owned: "intervals_owned m"
    and installs_polled: "installs_polled m"
    and installs_ticking: "installs_ticking m"
    by (simp_all add: tracker_ok_def)
  show ?thesis
    unfolding tracker_ok_def
    by (intro conjI
        timers_fresh_tracked [OF timers_fresh]
        shown_fresh_tracked [OF shown_fresh]
        installs_fresh_tracked [OF installs_fresh]
        lingers_fresh_tracked [OF lingers_fresh]
        bars_indexed_tracked [OF bars_indexed]
        bars_own_tracked [OF bars_own installs_fresh]
        bars_capped_tracked [OF bars_capped installs_fresh]
        bars_shown_tracked [OF bars_shown shown_fresh]
        full_complete_tracked [OF full_complete]
        lingers_done_tracked [OF lingers_done lingers_fresh]
        polls_active_tracked [OF polls_active]
        polls_unique_tracked [OF polls_unique polls_active new]
        intervals_owned_tracked [OF intervals_owned new]
        installs_polled_tracked [OF installs_polled timers_fresh]
        installs_ticking_tracked [OF installs_ticking timers_fresh])
qed

subsection \<open>Preservation by \<open>ticked\<close>\<close>

lemma timers_fresh_ticked:
  "timers_fresh m \<Longrightarrow> timers_fresh (ticked now pn inst m)"
  unfolding timers_fresh_def ticked_def bar_update_def
  by (fastforce simp: less_Suc_eq split: if_splits option.splits)

lemma shown_fresh_ticked:
  "shown_fresh m \<Longrightarrow> shown_fresh (ticked now pn inst m)"
  unfolding shown_fresh_def ticked_def bar_update_def
  by (fastforce simp: less_Suc_eq split: if_splits option.splits)

lemma installs_fresh_ticked:
  "installs_fresh m \<Longrightarrow> installs_fresh (ticked now pn inst m)"
  unfolding installs_fresh_def ticked_def bar_update_def
  by (fastforce simp: less_Suc_eq split: if_splits option.splits)

lemma lingers_fresh_ticked:
  "lingers_fresh m \<Longrightarrow> lingers_fresh (ticked now pn inst m)"
  unfolding lingers_fresh_def ticked_def bar_update_def
  by (fastforce simp: less_Suc_eq split: if_splits option.splits)

lemma bars_indexed_ticked:
  "bars_indexed m \<Longrightarrow> bars_indexed (ticked now pn inst m)"
  unfolding bars_indexed_def ticked_def bar_update_def
  by (fastforce simp: less_Suc_eq split: if_splits option.splits)

lemma bars_own_ticked:
  "bars_own m \<Longrightarrow> bars_own (ticked now pn inst m)"
  unfolding bars_own_def ticked_def bar_update_def
  by (fastforce simp: less_Suc_eq split: if_splits option.splits)

lemma bars_capped_ticked:
  "bars_capped m \<Longrightarrow> bars_capped (ticked now pn inst m)"
  unfolding bars_capped_def ticked_def bar_update_def
  by (fastforce simp: progress_percentage_le split: if_splits option.splits)

lemma bars_shown_ticked:
  "bars_shown m \<Longrightarrow> bars_shown (ticked now pn inst m)"
  unfolding bars_shown_def ticked_def bar_update_def
  by (fastforce simp: less_Suc_eq split: if_splits option.splits)

lemma progress_percentage_neq_100: "progress_percentage e d \<noteq> 100"
  using progress_percentage_le [of e d] by simp

lemma full_complete_ticked:
  "full_complete m \<Longrightarrow> full_complete (ticked now pn inst m)"
  unfolding full_complete_def ticked_def bar_update_def
  by (fastforce simp: progress_percentage_neq_100 split: if_splits option.splits)

lemma lingers_done_ticked:
  "lingers_done m \<Longrightarrow> lingers_done (ticked now pn inst m)"
  unfolding lingers_done_def ticked_def bar_update_def
  by (fastforce simp: less_Suc_eq split: if_splits option.splits)

lemma polls_active_ticked:
  "polls_active m \<Longrightarrow> polls_active (ticked now pn inst m)"
  unfolding polls_active_def ticked_def bar_update_def
  by (fastforce simp: less_Suc_eq split: if_splits option.splits)

lemma polls_unique_ticked:
  "polls_unique m \<Longrightarrow> polls_unique (ticked now pn inst m)"
  unfolding polls_unique_def ticked_def bar_update_def
  by (fastforce simp: less_Suc_eq split: if_splits option.splits)

lemma intervals_owned_ticked:
  "intervals_owned m \<Longrightarrow> intervals_owned (ticked now pn inst m)"
  unfolding intervals_owned_def ticked_def bar_update_def
  by (fastforce simp: less_Suc_eq split: if_splits option.splits)

lemma installs_polled_ticked:
  "installs_polled m \<Longrightarrow> installs_polled (ticked now pn inst m)"
  unfolding installs_polled_def ticked_def bar_update_def
  by (fastforce simp: less_Suc_eq split: if_splits option.splits)

lemma installs_ticking_ticked:
  "installs_ticking m \<Longrightarrow> installs_ticking (ticked now pn inst m)"
  unfolding installs_ticking_def ticked_def bar_update_def
  by (fastforce simp: less_Suc_eq split: if_splits option.splits)

lemma tracker_ok_ticked:
  assumes ok: "tracker_ok m"
  shows "tracker_ok (ticked now pn inst m)"
proof -
  from ok have timers_fresh: "timers_fresh m"
    and shown_fresh: "shown_fresh m"
    and installs_fresh: "installs_fresh m"
    and lingers_fresh: "lingers_fresh m"
    and bars_indexed: "bars_indexed m"
    and bars_own: "bars_own m"
    and bars_capped: "bars_capped m"
    and bars_shown: "bars_shown m"
    and full_complete: "full_complete m"
    and lingers_done: "lingers_done m"
    and polls_active: "polls_active m"
    and polls_unique: "polls_unique m"
    and intervals_owned: "intervals_owned m"
    and installs_polled: "installs_polled m"
    and installs_ticking: "installs_ticking m"
    by (simp_all add: tracker_ok_def)
  show ?thesis
    unfolding tracker_ok_def
    by (intro conjI
        timers_fresh_ticked [OF timers_fresh]
        shown_fresh_ticked [OF shown_fresh]
        installs_fresh_ticked [OF installs_fresh]
        lingers_fresh_ticked [OF lingers_fresh]
        bars_indexed_ticked [OF bars_indexed]
        bars_own_ticked [OF bars_own]
        bars_capped_ticked [OF bars_capped]
        bars_shown_ticked [OF bars_shown]
        full_complete_ticked [OF full_complete]
        lingers_done_ticked [OF lingers_done]
        polls_active_ticked [OF polls_active]
        polls_unique_ticked [OF polls_unique]
        intervals_owned_ticked [OF intervals_owned]
        installs_polled_ticked [OF installs_polled]
        installs_ticking_ticked [OF installs_ticking])
qed

subsection \<open>Preservation by \<open>repolled\<close>\<close>

lemma timers_fresh_repolled:
  "timers_fresh m \<Longrightarrow> timers m tid = Some (d, CheckComplete key pn pj) \<Longrightarrow> activeInstalls m key = Some install \<Longrightarrow> timers_fresh (repolled tid key pn pj m)"
  unfolding timers_fresh_def repolled_def
  by (fastforce simp: less_Suc_eq split: if_splits option.splits)

lemma shown_fresh_repolled:
  "shown_fresh m \<Longrightarrow> timers m tid = Some (d, CheckComplete key pn pj) \<Longrightarrow> activeInstalls m key = Some install \<Longrightarrow> shown_fresh (repolled tid key pn pj m)"
  unfolding shown_fresh_def repolled_def
  by (fastforce simp: less_Suc_eq split: if_splits option.splits)

lemma installs_fresh_repolled:
  "installs_fresh m \<Longrightarrow> timers m tid = Some (d, CheckComplete key pn pj) \<Longrightarrow> activeInstalls m key = Some install \<Longrightarrow> installs_fresh (repolled tid key pn pj m)"
  unfolding installs_fresh_def repolled_def
  by (fastforce simp: less_Suc_eq split: if_splits option.splits)

lemma lingers_fresh_repolled:
  "lingers_fresh m \<Longrightarrow> timers m tid = Some (d, CheckComplete key pn pj) \<Longrightarrow> activeInstalls m key = Some install \<Longrightarrow> lingers_fresh (repolled tid key pn pj m)"
  unfolding lingers_fresh_def repolled_def
  by (fastforce simp: less_Suc_eq split: if_splits option.splits)

lemma bars_indexed_repolled:
  "bars_indexed m \<Longrightarrow> timers m tid = Some (d, CheckComplete key pn pj) \<Longrightarrow> activeInstalls m key = Some install \<Longrightarrow> bars_indexed (repolled tid key pn pj m)"
  unfolding bars_indexed_def repolled_def
  by (fastforce simp: less_Suc_eq split: if_splits option.splits)

lemma bars_own_repolled:
  "bars_own m \<Longrightarrow> timers m tid = Some (d, CheckComplete key pn pj) \<Longrightarrow> activeInstalls m key = Some install \<Longrightarrow> bars_own (repolled tid key pn pj m)"
  unfolding bars_own_def repolled_def
  by (fastforce simp: less_Suc_eq split: if_splits option.splits)

lemma bars_capped_repolled:
  "bars_capped m \<Longrightarrow> timers m tid = Some (d, CheckComplete key pn pj) \<Longrightarrow> activeInstalls m key = Some install \<Longrightarrow> bars_capped (repolled tid key pn pj m)"
  unfolding bars_capped_def repolled_def
  by (fastforce simp: less_Suc_eq split: if_splits option.splits)

lemma bars_shown_repolled:
  "bars_shown m \<Longrightarrow> timers m tid = Some (d, CheckComplete key pn pj) \<Longrightarrow> activeInstalls m key = Some install \<Longrightarrow> bars_shown (repolled tid key pn pj m)"
  unfolding bars_shown_def repolled_def
  by (fastforce simp: less_Suc_eq split: if_splits option.splits)

lemma full_complete_repolled:
  "full_complete m \<Longrightarrow> timers m tid = Some (d, CheckComplete key pn pj) \<Longrightarrow> activeInstalls m key = Some install \<Longrightarrow> full_complete (repolled tid key pn pj m)"
  unfolding full_complete_def repolled_def
  by (fastforce simp: less_Suc_eq split: if_splits option.splits)

lemma lingers_done_repolled:
  "lingers_done m \<Longrightarrow> timers m tid = Some (d, CheckComplete key pn pj) \<Longrightarrow> activeInstalls m key = Some install \<Longrightarrow> lingers_done (repolled tid key pn pj m)"
  unfolding lingers_done_def repolled_def
  by (fastforce simp: less_Suc_eq split: if_splits option.splits)

lemma polls_active_repolled:
  "polls_active m \<Longrightarrow> timers m tid = Some (d, CheckComplete key pn pj) \<Longrightarrow> activeInstalls m key = Some install \<Longrightarrow> polls_active (repolled tid key pn pj m)"
  unfolding polls_active_def repolled_def
  by (fastforce simp: less_Suc_eq split: if_splits option.splits)

lemma polls_unique_repolled:
  "polls_unique m \<Longrightarrow> timers m tid = Some (d, CheckComplete key pn pj) \<Longrightarrow> activeInstalls m key = Some install \<Longrightarrow> polls_unique (repolled tid key pn pj m)"
  unfolding polls_unique_def repolled_def
  by (fastforce simp: less_Suc_eq split: if_splits option.splits)

lemma intervals_owned_repolled:
  "intervals_owned m \<Longrightarrow> timers_fresh m \<Longrightarrow> timers m tid = Some (d, CheckComplete key pn pj) \<Longrightarrow> activeInstalls m key = Some install \<Longrightarrow> intervals_owned (repolled tid key pn pj m)"
  unfolding intervals_owned_def timers_fresh_def repolled_def
  by (fastforce simp: less_Suc_eq split: if_splits option.splits)

lemma installs_polled_repolled:
  assumes "installs_polled m" and "timers_fresh m"
    and tid: "timers m tid = Some (d0, CheckComplete key pn pj)"
  shows "installs_polled (repolled tid key pn pj m)"
proof (unfold installs_polled_def, intro allI impI)
  fix k i
  assume a: "activeInstalls (repolled tid key pn pj m) k = Some i"
  show "\<exists>t d pn' pj'. timers (repolled tid key pn pj m) t = Some (d, CheckComplete k pn' pj')"
  proof (cases "k = key")
    case True
    have "timers (repolled tid key pn pj m) (next_id m) = Some (300, CheckComplete key pn pj)"
      by (simp add: repolled_def)
    with True show ?thesis by blast
  next
    case False
    from a have "activeInstalls m k = Some i" by (simp add: repolled_def)
    from installs_polledD [OF assms(1) this] obtain t d pn' pj'
      where t: "timers m t = Some (d, CheckComplete k pn' pj')" by blast
    from timers_freshD [OF assms(2) t] have "t < next_id m" .
    moreover from t tid False have "t \<noteq> tid" by auto
    ultimately have "timers (repolled tid key pn pj m) t = Some (d, CheckComplete k pn' pj')"
      using t by (simp add: repolled_def)
    then show ?thesis by blast
  qed
qed

lemma installs_ticking_repolled:
  assumes "installs_ticking m" and "timers_fresh m"
    and tid: "timers m tid = Some (d0, CheckComplete key pn pj)"
  shows "installs_ticking (repolled tid key pn pj m)"
proof (unfold installs_ticking_def, intro allI impI)
  fix k i
  assume a: "activeInstalls (repolled tid key pn pj m) k = Some i"
  then have "activeInstalls m k = Some i" by (simp add: repolled_def)
  from installs_tickingD [OF assms(1) this] obtain t d pn' inst
    where i: "i_progressInterval i = Some t"
      and t: "timers m t = Some (d, ProgressInterval k pn' inst)" by blast
  from timers_freshD [OF assms(2) t] have "t < next_id m" .
  moreover from t tid have "t \<noteq> tid" by auto
  ultimately have "timers (repolled tid key pn pj m) t = Some (d, ProgressInterval k pn' inst)"
    using t by (simp add: repolled_def)
  with i show "\<exists>t d pn' inst. i_progressInterval i = Some t \<and>
      timers (repolled tid key pn pj m) t = Some (d, ProgressInterval k pn' inst)" by blast
qed

lemma tracker_ok_repolled:
  assumes ok: "tracker_ok m"
    and tid: "timers m tid = Some (d, CheckComplete key pn pj)"
    and act: "activeInstalls m key = Some install"
  shows "tracker_ok (repolled tid key pn pj m)"
proof -
  from ok have timers_fresh: "timers_fresh m"
    and shown_fresh: "shown_fresh m"
    and installs_fresh: "installs_fresh m"
    and lingers_fresh: "lingers_fresh m"
    and bars_indexed: "bars_indexed m"
    and bars_own: "bars_own m"
    and bars_capped: "bars_capped m"
    and bars_shown: "bars_shown m"
    and full_complete: "full_complete m"
    and lingers_done: "lingers_done m"
    and polls_active: "polls_active m"
    and polls_unique: "polls_unique m"
    and intervals_owned: "intervals_owned m"
    and installs_polled: "installs_polled m"
    and installs_ticking: "installs_ticking m"
    by (simp_all add: tracker_ok_def)
  show ?thesis
    unfolding tracker_ok_def
    by (intro conjI
        timers_fresh_repolled [OF timers_fresh tid act]
        shown_fresh_repolled [OF shown_fresh tid act]
        installs_fresh_repolled [OF installs_fresh tid act]
        lingers_fresh_repolled [OF lingers_fresh tid act]
        bars_indexed_repolled [OF bars_indexed tid act]
        bars_own_repolled [OF bars_own tid act]
        bars_capped_repolled [OF bars_capped tid act]
        bars_shown_repolled [OF bars_shown tid act]
        full_complete_repolled [OF full_complete tid act]
        lingers_done_repolled [OF lingers_done tid act]
        polls_active_repolled [OF polls_active tid act]
        polls_unique_repolled [OF polls_unique tid act]
        intervals_owned_repolled [OF intervals_owned timers_fresh tid act]
        installs_polled_repolled [OF installs_polled timers_fresh tid]
        installs_ticking_repolled [OF installs_ticking timers_fresh tid])
qed

subsection \<open>Preservation by \<open>completed\<close>\<close>

lemma timers_fresh_completed:
  "timers_fresh m \<Longrightarrow> timers m tid = Some (d, CheckComplete key pn pj) \<Longrightarrow> activeInstalls m key = Some install \<Longrightarrow> timers_fresh (completed tid key pn install m)"
  unfolding timers_fresh_def completed_def complete_install_def bar_update_def Let_def
  by (fastforce simp: less_Suc_eq split: if_splits option.splits)

lemma shown_fresh_completed:
  "shown_fresh m \<Longrightarrow> timers m tid = Some (d, CheckComplete key pn pj) \<Longrightarrow> activeInstalls m key = Some install \<Longrightarrow> shown_fresh (completed tid key pn install m)"
  unfolding shown_fresh_def completed_def complete_install_def bar_update_def Let_def
  by (fastforce simp: less_Suc_eq split: if_splits option.splits)

lemma installs_fresh_completed:
  "installs_fresh m \<Longrightarrow> timers m tid = Some (d, CheckComplete key pn pj) \<Longrightarrow> activeInstalls m key = Some install \<Longrightarrow> installs_fresh (completed tid key pn install m)"
  unfolding installs_fresh_def completed_def complete_install_def bar_update_def Let_def
  by (fastforce simp: less_Suc_eq split: if_splits option.splits)

lemma lingers_fresh_completed:
  "lingers_fresh m \<Longrightarrow> installs_fresh m \<Longrightarrow> timers m tid = Some (d, CheckComplete key pn pj) \<Longrightarrow> activeInstalls m key = Some install \<Longrightarrow> lingers_fresh (completed tid key pn install m)"
  unfolding lingers_fresh_def installs_fresh_def completed_def complete_install_def bar_update_def Let_def
  by (fastforce simp: less_Suc_eq split: if_splits option.splits)

lemma bars_indexed_completed:
  "bars_indexed m \<Longrightarrow> timers m tid = Some (d, CheckComplete key pn pj) \<Longrightarrow> activeInstalls m key = Some install \<Longrightarrow> bars_indexed (completed tid key pn install m)"
  unfolding bars_indexed_def completed_def complete_install_def bar_update_def Let_def
  by (fastforce simp: less_Suc_eq split: if_splits option.splits)

lemma bars_own_completed: "bars_own m \<Longrightarrow> bars_own (completed tid key pn install m)"
  unfolding bars_own_def by (auto split: if_splits)

lemma bars_capped_completed:
  "bars_capped m \<Longrightarrow> bars_own m \<Longrightarrow> timers m tid = Some (d, CheckComplete key pn pj) \<Longrightarrow> activeInstalls m key = Some install \<Longrightarrow> bars_capped (completed tid key pn install m)"
  unfolding bars_capped_def bars_own_def completed_def complete_install_def bar_update_def Let_def
  by (fastforce simp: less_Suc_eq split: if_splits option.splits)

lemma bars_shown_completed:
  "bars_shown m \<Longrightarrow> timers m tid = Some (d, CheckComplete key pn pj) \<Longrightarrow> activeInstalls m key = Some install \<Longrightarrow> bars_shown (completed tid key pn install m)"
  unfolding bars_shown_def completed_def complete_install_def bar_update_def Let_def
  by (fastforce simp: less_Suc_eq split: if_splits option.splits)

lemma full_complete_completed:
  "full_complete m \<Longrightarrow> timers m tid = Some (d, CheckComplete key pn pj) \<Longrightarrow> activeInstalls m key = Some install \<Longrightarrow> full_complete (completed tid key pn install m)"
  unfolding full_complete_def completed_def complete_install_def bar_update_def Let_def
  by (fastforce simp: less_Suc_eq split: if_splits option.splits)

lemma lingers_done_completed:
  "lingers_done m \<Longrightarrow> bars_own m \<Longrightarrow> timers m tid = Some (d, CheckComplete key pn pj) \<Longrightarrow> activeInstalls m key = Some install \<Longrightarrow> lingers_done (completed tid key pn install m)"
  unfolding lingers_done_def bars_own_def completed_def complete_install_def bar_update_def Let_def
  by (fastforce simp: less_Suc_eq split: if_splits option.splits)

lemma polls_active_completed:
  assumes "polls_active m" and "polls_unique m"
    and tid: "timers m tid = Some (d0, CheckComplete key pn pj)"
  shows "polls_active (completed tid key pn install m)"
proof (unfold polls_active_def, intro allI impI)
  fix t d k pn' pj'
  assume a: "timers (completed tid key pn install m) t = Some (d, CheckComplete k pn' pj')"
  then have t: "timers m t = Some (d, CheckComplete k pn' pj')" and ne: "t \<noteq> tid"
    by (auto simp: completed_timers split: option.splits if_splits)
  from assms(1) t have act: "activeInstalls m k \<noteq> None" unfolding polls_active_def by blast
  have "k \<noteq> key"
  proof
    assume "k = key"
    with t tid assms(2) have "t = tid" unfolding polls_unique_def by blast
    with ne show False by simp
  qed
  with act show "activeInstalls (completed tid key pn install m) k \<noteq> None" by simp
qed

lemma polls_unique_completed:
  "polls_unique m \<Longrightarrow> timers m tid = Some (d, CheckComplete key pn pj) \<Longrightarrow> activeInstalls m key = Some install \<Longrightarrow> polls_unique (completed tid key pn install m)"
  unfolding polls_unique_def completed_def complete_install_def bar_update_def Let_def
  by (fastforce simp: less_Suc_eq split: if_splits option.splits)

lemma intervals_owned_completed:
  "intervals_owned m \<Longrightarrow> timers_fresh m \<Longrightarrow> timers m tid = Some (d, CheckComplete key pn pj) \<Longrightarrow> activeInstalls m key = Some install \<Longrightarrow> intervals_owned (completed tid key pn install m)"
  unfolding intervals_owned_def timers_fresh_def completed_def complete_install_def bar_update_def Let_def
  by (fastforce simp: less_Suc_eq split: if_splits option.splits)

lemma installs_polled_completed:
  assumes "installs_polled m" and "timers_fresh m" and "installs_ticking m"
    and tid: "timers m tid = Some (d0, CheckComplete key pn pj)"
    and act: "activeInstalls m key = Some install"
  shows "installs_polled (completed tid key pn install m)"
proof (unfold installs_polled_def, intro allI impI)
  fix k i
  assume a: "activeInstalls (completed tid key pn install m) k = Some i"
  then have k: "k \<noteq> key" and ki: "activeInstalls m k = Some i" by (auto split: if_splits)
  from installs_polledD [OF assms(1) ki] obtain t d pn' pj'
    where t: "timers m t = Some (d, CheckComplete k pn' pj')" by blast
  from timers_freshD [OF assms(2) t] have 1: "t \<noteq> next_id m" by simp
  from t tid k have 2: "t \<noteq> tid" by auto
  from installs_tickingD [OF assms(3) act] obtain t0 d1 pn1 inst1
    where "i_progressInterval install = Some t0"
      and "timers m t0 = Some (d1, ProgressInterval key pn1 inst1)" by blast
  with t have 3: "i_progressInterval install = Some t0" "t \<noteq> t0" by auto
  from 1 2 3 t have "timers (completed tid key pn install m) t = Some (d, CheckComplete k pn' pj')"
    by (simp add: completed_timers)
  then show "\<exists>t d pn' pj'. timers (completed tid key pn install m) t =
      Some (d, CheckComplete k pn' pj')" by blast
qed

lemma installs_ticking_completed:
  assumes "installs_ticking m" and "timers_fresh m"
    and tid: "timers m tid = Some (d0, CheckComplete key pn pj)"
    and act: "activeInstalls m key = Some install"
  shows "installs_ticking (completed tid key pn install m)"
proof (unfold installs_ticking_def, intro allI impI)
  fix k i
  assume a: "activeInstalls (completed tid key pn install m) k = Some i"
  then have k: "k \<noteq> key" and ki: "activeInstalls m k = Some i" by (auto split: if_splits)
  from installs_tickingD [OF assms(1) ki] obtain t d pn' inst
    where i: "i_progressInterval i = Some t"
      and t: "timers m t = Some (d, ProgressInterval k pn' inst)" by blast
  from timers_freshD [OF assms(2) t] have 1: "t \<noteq> next_id m" by simp
  from t tid have 2: "t \<noteq> tid" by auto
  from installs_tickingD [OF assms(1) act] obtain t0 d1 pn1 inst1
    where "i_progressInterval install = Some t0"
      and "timers m t0 = Some (d1, ProgressInterval key pn1 inst1)" by blast
  with t k have 3: "i_progressInterval install = Some t0" "t \<noteq> t0" by auto
  from 1 2 3 t have "timers (completed tid key pn install m) t =
      Some (d, ProgressInterval k pn' inst)"
    by (simp add: completed_timers)
  with i show "\<exists>t d pn' inst. i_progressInterval i = Some t \<and>
      timers (completed tid key pn install m) t = Some (d, ProgressInterval k pn' inst)" by blast
qed

lemma tracker_ok_completed:
  assumes ok: "tracker_ok m"
    and tid: "timers m tid = Some (d, CheckComplete key pn pj)"
    and act: "activeInstalls m key = Some install"
  shows "tracker_ok (completed tid key pn install m)"
proof -
  from ok have timers_fresh: "timers_fresh m"
    and shown_fresh: "shown_fresh m"
    and installs_fresh: "installs_fresh m"
    and lingers_fresh: "lingers_fresh m"
    and bars_indexed: "bars_indexed m"
    and bars_own: "bars_own m"
    and bars_capped: "bars_capped m"
    and bars_shown: "bars_shown m"
    and full_complete: "full_complete m"
    and lingers_done: "lingers_done m"
    and polls_active: "polls_active m"
    and polls_unique: "polls_unique m"
    and intervals_owned: "intervals_owned m"
    and installs_polled: "installs_polled m"
    and installs_ticking: "installs_ticking m"
    by (simp_all add: tracker_ok_def)
  show ?thesis
    unfolding tracker_ok_def
    by (intro conjI
        timers_fresh_completed [OF timers_fresh tid act]
        shown_fresh_completed [OF shown_fresh tid act]
        installs_fresh_completed [OF installs_fresh tid act]
        lingers_fresh_completed [OF lingers_fresh installs_fresh tid act]
        bars_indexed_completed [OF bars_indexed tid act]
        bars_own_completed [OF bars_own]
        bars_capped_completed [OF bars_capped bars_own tid act]
        bars_shown_completed [OF bars_shown tid act]
        full_complete_completed [OF full_complete tid act]
        lingers_done_completed [OF lingers_done bars_own tid act]
        polls_active_completed [OF polls_active polls_unique tid]
        polls_unique_completed [OF polls_unique tid act]
        intervals_owned_completed [OF intervals_owned timers_fresh tid act]
        installs_polled_completed [OF installs_polled timers_fresh installs_ticking tid act]
        installs_ticking_completed [OF installs_ticking timers_fresh tid act])
qed

subsection \<open>Preservation by \<open>lingered\<close>\<close>

lemma timers_fresh_lingered:
  "timers_fresh m \<Longrightarrow> timers m tid = Some (d, Linger b) \<Longrightarrow> timers_fresh (lingered tid b m)"
  unfolding timers_fresh_def lingered_def
  by (fastforce simp: less_Suc_eq split: if_splits option.splits)

lemma shown_fresh_lingered:
  "shown_fresh m \<Longrightarrow> timers m tid = Some (d, Linger b) \<Longrightarrow> shown_fresh (lingered tid b m)"
  unfolding shown_fresh_def lingered_def
  by (fastforce simp: less_Suc_eq split: if_splits option.splits)

lemma installs_fresh_lingered:
  "installs_fresh m \<Longrightarrow> timers m tid = Some (d, Linger b) \<Longrightarrow> installs_fresh (lingered tid b m)"
  unfolding installs_fresh_def lingered_def
  by (fastforce simp: less_Suc_eq split: if_splits option.splits)

lemma lingers_fresh_lingered:
  "lingers_fresh m \<Longrightarrow> timers m tid = Some (d, Linger b) \<Longrightarrow> lingers_fresh (lingered tid b m)"
  unfolding lingers_fresh_def lingered_def
  by (fastforce simp: less_Suc_eq split: if_splits option.splits)

lemma bars_indexed_lingered:
  "bars_indexed m \<Longrightarrow> timers m tid = Some (d, Linger b) \<Longrightarrow> bars_indexed (lingered tid b m)"
  unfolding bars_indexed_def lingered_def
  by (fastforce simp: less_Suc_eq split: if_splits option.splits)

lemma bars_own_lingered:
  "bars_own m \<Longrightarrow> timers m tid = Some (d, Linger b) \<Longrightarrow> bars_own (lingered tid b m)"
  unfolding bars_own_def lingered_def
  by (fastforce simp: less_Suc_eq split: if_splits option.splits)

lemma bars_capped_lingered:
  "bars_capped m \<Longrightarrow> timers m tid = Some (d, Linger b) \<Longrightarrow> bars_capped (lingered tid b m)"
  unfolding bars_capped_def lingered_def
  by (fastforce simp: less_Suc_eq split: if_splits option.splits)

lemma bars_shown_lingered:
  "bars_shown m \<Longrightarrow> lingers_done m \<Longrightarrow> timers m tid = Some (d, Linger b) \<Longrightarrow> bars_shown (lingered tid b m)"
  unfolding bars_shown_def lingers_done_def lingered_def
  by (fastforce simp: less_Suc_eq split: if_splits option.splits)

lemma full_complete_lingered:
  "full_complete m \<Longrightarrow> timers m tid = Some (d, Linger b) \<Longrightarrow> full_complete (lingered tid b m)"
  unfolding full_complete_def lingered_def
  by (fastforce simp: less_Suc_eq split: if_splits option.splits)

lemma lingers_done_lingered:
  "lingers_done m \<Longrightarrow> timers m tid = Some (d, Linger b) \<Longrightarrow> lingers_done (lingered tid b m)"
  unfolding lingers_done_def lingered_def
  by (fastforce simp: less_Suc_eq split: if_splits option.splits)

lemma polls_active_lingered:
  "polls_active m \<Longrightarrow> timers m tid = Some (d, Linger b) \<Longrightarrow> polls_active (lingered tid b m)"
  unfolding polls_active_def lingered_def
  by (fastforce simp: less_Suc_eq split: if_splits option.splits)

lemma polls_unique_lingered:
  "polls_unique m \<Longrightarrow> timers m tid = Some (d, Linger b) \<Longrightarrow> polls_unique (lingered tid b m)"
  unfolding polls_unique_def lingered_def
  by (fastforce simp: less_Suc_eq split: if_splits option.splits)

lemma intervals_owned_lingered:
  "intervals_owned m \<Longrightarrow> timers m tid = Some (d, Linger b) \<Longrightarrow> intervals_owned (lingered tid b m)"
  unfolding intervals_owned_def lingered_def
  by (fastforce simp: less_Suc_eq split: if_splits option.splits)

lemma installs_polled_lingered:
  assumes "installs_polled m" and tid: "timers m tid = Some (d0, Linger b)"
  shows "installs_polled (lingered tid b m)"
proof (unfold installs_polled_def, intro allI impI)
  fix k i
  assume "activeInstalls (lingered tid b m) k = Some i"
  then have "activeInstalls m k = Some i" by (simp add: lingered_def)
  from installs_polledD [OF assms(1) this] obtain t d pn' pj'
    where t: "timers m t = Some (d, CheckComplete k pn' pj')" by blast
  with tid have "t \<noteq> tid" by auto
  with t have "timers (lingered tid b m) t = Some (d, CheckComplete k pn' pj')"
    by (simp add: lingered_def)
  then show "\<exists>t d pn' pj'. timers (lingered tid b m) t = Some (d, CheckComplete k pn' pj')"
    by blast
qed

lemma installs_ticking_lingered:
  "installs_ticking m \<Longrightarrow> timers m tid = Some (d, Linger b) \<Longrightarrow> installs_ticking (lingered tid b m)"
  unfolding installs_ticking_def lingered_def
  by (fastforce simp: less_Suc_eq split: if_splits option.splits)

lemma tracker_ok_lingered:
  assumes ok: "tracker_ok m"
    and tid: "timers m tid = Some (d, Linger b)"
  shows "tracker_ok (lingered tid b m)"
proof -
  from ok have timers_fresh: "timers_fresh m"
    and shown_fresh: "shown_fresh m"
    and installs_fresh: "installs_fresh m"
    and lingers_fresh: "lingers_fresh m"
    and bars_indexed: "bars_indexed m"
    and bars_own: "bars_own m"
    and bars_capped: "bars_capped m"
    and bars_shown: "bars_shown m"
    and full_complete: "full_complete m"
    and lingers_done: "lingers_done m"
    and polls_active: "polls_active m"
    and polls_unique: "polls_unique m"
    and intervals_owned: "intervals_owned m"
    and installs_polled: "installs_polled m"
    and installs_ticking: "installs_ticking m"
    by (simp_all add: tracker_ok_def)
  show ?thesis
    unfolding tracker_ok_def
    by (intro conjI
        timers_fresh_lingered [OF timers_fresh tid]
        shown_fresh_lingered [OF shown_fresh tid]
        installs_fresh_lingered [OF installs_fresh tid]
        lingers_fresh_lingered [OF lingers_fresh tid]
        bars_indexed_lingered [OF bars_indexed tid]
        bars_own_lingered [OF bars_own tid]
        bars_capped_lingered [OF bars_capped tid]
        bars_shown_lingered [OF bars_shown lingers_done tid]
        full_complete_lingered [OF full_complete tid]
        lingers_done_lingered [OF lingers_done tid]
        polls_active_lingered [OF polls_active tid]
        polls_unique_lingered [OF polls_unique tid]
        intervals_owned_lingered [OF intervals_owned tid]
        installs_polled_lingered [OF installs_polled tid]
        installs_ticking_lingered [OF installs_ticking tid])
qed

subsection \<open>Every step keeps the invariants\<close>

lemma tracker_ok_fields:
  "activeInstalls m' = activeInstalls m \<Longrightarrow> progressBars m' = progressBars m \<Longrightarrow>
   bars m' = bars m \<Longrightarrow> multibar m' = multibar m \<Longrightarrow> timers m' = timers m \<Longrightarrow>
   next_id m' = next_id m \<Longrightarrow> tracker_ok m' = tracker_ok m"
  by (simp add: tracker_ok_def timers_fresh_def shown_fresh_def installs_fresh_def
      lingers_fresh_def bars_indexed_def bars_own_def bars_capped_def bars_shown_def
      full_complete_def lingers_done_def polls_active_def polls_unique_def
      intervals_owned_def installs_polled_def installs_ticking_def)

lemma registry_ok_fields:
  "monitoredProjects m' = monitoredProjects m \<Longrightarrow> watchers m' = watchers m \<Longrightarrow>
   registry_ok m' = registry_ok m"
  by (simp add: registry_ok_def)

lemma tracker_ok_members [simp]: "tracker_ok (m\<lparr>monitoredProjects := x\<rparr>) = tracker_ok m"
  by (rule tracker_ok_fields) simp_all

lemma tracker_ok_watchers [simp]: "tracker_ok (m\<lparr>watchers := x\<rparr>) = tracker_ok m"
  by (rule tracker_ok_fields) simp_all

lemma tracker_ok_track:
  "tracker_ok m \<Longrightarrow> tracker_ok (trackInstallationWithProgress now pn pj ci m)"
  by (cases "activeInstalls m (install_key pj pn)")
    (simp_all add: track_new tracker_ok_tracked track_active)

lemma poll_is_active:
  "tracker_ok m \<Longrightarrow> timers m tid = Some (d, CheckComplete key pn pj) \<Longrightarrow>
   \<exists>install. activeInstalls m key = Some install"
  unfolding tracker_ok_def polls_active_def by blast

lemma interval_is_active:
  "tracker_ok m \<Longrightarrow> timers m tid = Some (d, ProgressInterval key pn inst) \<Longrightarrow>
   \<exists>i. activeInstalls m key = Some i \<and> i_progressInterval i = Some tid \<and>
        i_progressBar i = i_progressBar inst"
  unfolding tracker_ok_def intervals_owned_def by blast

lemma tracker_ok_fire:
  assumes ok: "tracker_ok m"
  shows "tracker_ok (fire_timer env ex now tid m)"
proof (cases "timers m tid")
  case None
  with ok show ?thesis by (simp add: fire_none)
next
  case (Some dt)
  obtain d cb where dt: "dt = (d, cb)" by (cases dt)
  show ?thesis
  proof (cases cb)
    case (ProgressInterval key pn inst)
    with Some dt have t: "timers m tid = Some (d, ProgressInterval key pn inst)" by simp
    from interval_is_active [OF ok t] have "activeInstalls m key \<noteq> None" by auto
    from fire_interval [OF t this] tracker_ok_ticked [OF ok] show ?thesis by simp
  next
    case (CheckComplete key pn pj)
    with Some dt have t: "timers m tid = Some (d, CheckComplete key pn pj)" by simp
    from poll_is_active [OF ok t] obtain install
      where act: "activeInstalls m key = Some install" by blast
    show ?thesis
    proof (cases "manifest_observed env ex (monitoredProjects m) pn pj")
      case True
      from fire_poll_success [OF t act True] tracker_ok_completed [OF ok t act]
      show ?thesis by simp
    next
      case False
      from fire_poll_fail [OF t act False] tracker_ok_repolled [OF ok t act]
      show ?thesis by simp
    qed
  next
    case (Linger b)
    with Some dt have t: "timers m tid = Some (d, Linger b)" by simp
    from fire_linger [OF t] tracker_ok_lingered [OF ok t] show ?thesis by simp
  qed
qed

lemma track_registry [simp]:
  "monitoredProjects (trackInstallationWithProgress now pn pj ci m) = monitoredProjects m"
  "watchers (trackInstallationWithProgress now pn pj ci m) = watchers m"
  by (simp_all add: trackInstallationWithProgress_def simulateInstallProgress_def
      checkInstallationCompleteWithProgress_def Let_def)

lemma fire_registry [simp]:
  "monitoredProjects (fire_timer env ex now tid m) = monitoredProjects m"
  "watchers (fire_timer env ex now tid m) = watchers m"
  by (simp_all add: fire_timer_def progress_tick_def checkComplete_def complete_install_def
      bar_update_def Let_def split: option.splits timer.splits prod.splits)

lemma watch_project_tracker:
  "tracker_ok (watchProjectDirectoryWithProgress ex p m) = tracker_ok m"
  by (simp add: watchProjectDirectoryWithProgress_def Let_def)

lemma register_tracker: "tracker_ok (register_project env ex f m) = tracker_ok m"
  by (simp add: register_project_def Let_def watch_project_tracker)

lemma fold_register_tracker:
  "tracker_ok (fold (register_project env ex) fs m) = tracker_ok m"
  by (induction fs arbitrary: m) (simp_all add: register_tracker)

lemma discovery_tracker: "tracker_ok (fastFindAndMonitorProjects env ex fs m) = tracker_ok m"
proof -
  have "tracker_ok (fold (\<lambda>batch. fold (register_project env ex) batch) bs m) = tracker_ok m"
    for bs
    by (induction bs arbitrary: m) (simp_all add: fold_register_tracker)
  then show ?thesis by (simp add: fastFindAndMonitorProjects_def)
qed

lemma handlers_tracker:
  "tracker_ok m \<Longrightarrow> tracker_ok (on_project_addDir env now p dirPath files m)"
  "tracker_ok m \<Longrightarrow> tracker_ok (on_local_addDir env now dirPath files m)"
  "tracker_ok m \<Longrightarrow> tracker_ok (on_global_addDir env now dirPath m)"
  by (simp_all add: on_project_addDir_def on_local_addDir_def on_global_addDir_def Let_def
      tracker_ok_track split: sum.splits)

lemma tracker_ok_step: "tracker_ok m \<Longrightarrow> tracker_ok (step env e m)"
  by (cases e)
    (simp_all add: step_def handlers_tracker tracker_ok_fire discovery_tracker
      split: watcher.splits)

lemma tracker_ok_run: "tracker_ok m \<Longrightarrow> tracker_ok (run env events m)"
  unfolding run_def by (induction events arbitrary: m) (simp_all add: tracker_ok_step)

subsection \<open>The registry\<close>

lemma watch_project_registry:
  assumes "registry_ok m" and "p \<in> set (monitoredProjects m)"
    and "NodeModulesWatch p \<notin> set (watchers m)" and "PackageJsonWatch p \<notin> set (watchers m)"
  shows "registry_ok (watchProjectDirectoryWithProgress ex p m)"
  using assms unfolding registry_ok_def watchProjectDirectoryWithProgress_def Let_def
  by auto

lemma watch_project_members [simp]:
  "monitoredProjects (watchProjectDirectoryWithProgress ex p m) = monitoredProjects m"
  by (simp add: watchProjectDirectoryWithProgress_def Let_def)

lemma register_known:
  "path_dirname env f \<in> set (monitoredProjects m) \<Longrightarrow> register_project env ex f m = m"
  by (simp add: register_project_def)

lemma register_members:
  "monitoredProjects (register_project env ex f m) =
     Set_add (path_dirname env f) (monitoredProjects m)"
  by (simp add: register_project_def Let_def Set_add_def)

lemma register_registry:
  assumes "registry_ok m"
  shows "registry_ok (register_project env ex f m)"
proof (cases "path_dirname env f \<in> set (monitoredProjects m)")
  case True
  with assms show ?thesis by (simp add: register_known)
next
  case False
  let ?p = "path_dirname env f"
  let ?m = "m\<lparr>monitoredProjects := Set_add ?p (monitoredProjects m)\<rparr>"
  from assms False have "registry_ok ?m" and "?p \<in> set (monitoredProjects ?m)"
    and "NodeModulesWatch ?p \<notin> set (watchers ?m)" and "PackageJsonWatch ?p \<notin> set (watchers ?m)"
    unfolding registry_ok_def Set_add_def by auto
  from watch_project_registry [OF this] False show ?thesis
    by (simp add: register_project_def Let_def)
qed

lemma register_twice:
  "register_project env ex' f (register_project env ex f m) = register_project env ex f m"
  by (rule register_known) (simp add: register_members Set_add_def)

lemma fold_register_registry:
  "registry_ok m \<Longrightarrow> registry_ok (fold (register_project env ex) fs m)"
  by (induction fs arbitrary: m) (simp_all add: register_registry)

lemma discovery_registry:
  "registry_ok m \<Longrightarrow> registry_ok (fastFindAndMonitorProjects env ex fs m)"
proof -
  have "registry_ok m \<Longrightarrow>
      registry_ok (fold (\<lambda>batch. fold (register_project env ex) batch) bs m)" for bs m
    by (induction bs arbitrary: m) (simp_all add: fold_register_registry)
  then show "registry_ok m \<Longrightarrow> registry_ok (fastFindAndMonitorProjects env ex fs m)"
    by (simp add: fastFindAndMonitorProjects_def)
qed

lemma fold_register_known:
  "\<forall>f \<in> set fs. path_dirname env f \<in> set (monitoredProjects m) \<Longrightarrow>
   fold (register_project env ex) fs m = m"
  by (induction fs) (simp_all add: register_known)

lemma concat_batches: "concat (batches xs) = xs"
proof (induction xs rule: batches.induct)
  case (1 xs)
  then show ?case by (subst batches.simps) simp
qed

lemma discovery_as_fold:
  "fastFindAndMonitorProjects env ex fs m = fold (register_project env ex) fs m"
proof -
  have "fold (\<lambda>batch. fold (register_project env ex) batch) bs m =
      fold (register_project env ex) (concat bs) m" for bs m
    by (induction bs arbitrary: m) simp_all
  then show ?thesis by (simp add: fastFindAndMonitorProjects_def concat_batches)
qed

lemma discovery_known:
  "\<forall>f \<in> set fs. path_dirname env f \<in> set (monitoredProjects m) \<Longrightarrow>
   fastFindAndMonitorProjects env ex fs m = m"
  by (simp add: discovery_as_fold fold_register_known)

lemma watch_project_only:
  "only_projects m \<Longrightarrow> only_projects (watchProjectDirectoryWithProgress ex p m)"
  by (simp add: only_projects_def watchProjectDirectoryWithProgress_def Let_def)

lemma register_only: "only_projects m \<Longrightarrow> only_projects (register_project env ex f m)"
  by (simp add: register_project_def only_projects_def watchProjectDirectoryWithProgress_def
      Let_def)

lemma discovery_only:
  "only_projects m \<Longrightarrow> only_projects (fastFindAndMonitorProjects env ex fs m)"
  unfolding discovery_as_fold by (induction fs arbitrary: m) (simp_all add: register_only)

lemma monitor_cwd_registry:
  "registry_ok (monitor_cwd env ex new_monitor)" "only_projects (monitor_cwd env ex new_monitor)"
  by (simp_all add: monitor_cwd_def new_monitor_def registry_ok_def only_projects_def Set_add_def
      watchProjectDirectoryWithProgress_def Let_def)

lemma monitor_cwd_tracker: "tracker_ok (monitor_cwd env ex m) = tracker_ok m"
  by (simp add: monitor_cwd_def watch_project_tracker)

lemma tracker_ok_new: "tracker_ok new_monitor"
  by (simp add: new_monitor_def tracker_ok_def timers_fresh_def shown_fresh_def
      installs_fresh_def lingers_fresh_def bars_indexed_def bars_own_def bars_capped_def
      bars_shown_def full_complete_def lingers_done_def polls_active_def polls_unique_def
      intervals_owned_def installs_polled_def installs_ticking_def)

lemma watch_global_registry:
  "registry_ok m \<Longrightarrow> only_projects m \<Longrightarrow> registry_ok (watchGlobalNodeModules env ex m)"
  by (simp add: watchGlobalNodeModules_def registry_ok_def only_projects_def)

lemma watch_global_tracker: "tracker_ok (watchGlobalNodeModules env ex m) = tracker_ok m"
  by (simp add: watchGlobalNodeModules_def)

lemma start_ok:
  "registry_ok (statusCommand uni quick env ex fs) \<and> tracker_ok (statusCommand uni quick env ex fs)"
proof -
  have local: "registry_ok (startLocalMonitoring ex new_monitor)"
    by (simp add: startLocalMonitoring_def watchNodeModulesWithProgress_def watchPackageJson_def
        registry_ok_def new_monitor_def)
  have local': "tracker_ok (startLocalMonitoring ex new_monitor)"
    using tracker_ok_new
    by (simp add: startLocalMonitoring_def watchNodeModulesWithProgress_def watchPackageJson_def)
  have quick: "registry_ok (startQuickUniversalMonitoring env ex new_monitor)"
    by (simp add: startQuickUniversalMonitoring_def watch_global_registry monitor_cwd_registry)
  have quick': "tracker_ok (startQuickUniversalMonitoring env ex new_monitor)"
    using tracker_ok_new
    by (simp add: startQuickUniversalMonitoring_def watch_global_tracker monitor_cwd_tracker)
  have uni: "registry_ok (startUniversalMonitoring env ex fs new_monitor)"
    by (simp add: startUniversalMonitoring_def watch_global_registry monitor_cwd_registry
        discovery_registry discovery_only)
  have uni': "tracker_ok (startUniversalMonitoring env ex fs new_monitor)"
    using tracker_ok_new
    by (simp add: startUniversalMonitoring_def watch_global_tracker monitor_cwd_tracker
        discovery_tracker)
  from local local' quick quick' uni uni' show ?thesis by (simp add: statusCommand_def)
qed

lemma handlers_registry:
  "registry_ok (on_project_addDir env now p dirPath files m) = registry_ok m"
  "registry_ok (on_local_addDir env now dirPath files m) = registry_ok m"
  "registry_ok (on_global_addDir env now dirPath m) = registry_ok m"
  by (rule registry_ok_fields;
      simp add: on_project_addDir_def on_local_addDir_def on_global_addDir_def Let_def
        split: sum.splits)+

lemma fire_registry_ok: "registry_ok (fire_timer env ex now tid m) = registry_ok m"
  by (rule registry_ok_fields) simp_all

lemma registry_ok_step: "registry_ok m \<Longrightarrow> registry_ok (step env e m)"
  by (cases e)
    (simp_all add: step_def handlers_registry fire_registry_ok discovery_registry
      split: watcher.splits)

lemma registry_ok_run: "registry_ok m \<Longrightarrow> registry_ok (run env events m)"
  unfolding run_def by (induction events arbitrary: m) (simp_all add: registry_ok_step)

text \<open>Every state the monitor reaches satisfies both invariants.\<close>

lemma reachable_ok:
  "tracker_ok (run env events (statusCommand uni quick env ex fs)) \<and>
   registry_ok (run env events (statusCommand uni quick env ex fs))"
  using start_ok [of uni quick env ex fs] by (simp add: tracker_ok_run registry_ok_run)

section \<open>The tracker: claims\<close>

lemma count_list_distinct: "distinct xs \<Longrightarrow> x \<in> set xs \<Longrightarrow> count_list xs x = 1"
  by (induction xs) auto

lemma tracked_effect:
  "activeInstalls (tracked now pn pj ci m) (install_key pj pn) =
     Some \<lparr>i_startTime = now, i_projectName = pj, i_chainInfo = ci,
           i_progressBar = next_id m, i_progressInterval = Some (Suc (next_id m))\<rparr>"
  "multibar (tracked now pn pj ci m) = multibar m @ [next_id m]"
  "timers (tracked now pn pj ci m) =
     (timers m)(Suc (next_id m) \<mapsto> (200, ProgressInterval (install_key pj pn) pn
         \<lparr>i_startTime = now, i_projectName = pj, i_chainInfo = ci,
          i_progressBar = next_id m, i_progressInterval = None\<rparr>),
       Suc (Suc (next_id m)) \<mapsto> (500, CheckComplete (install_key pj pn) pn pj))"
  "bars (tracked now pn pj ci m) (next_id m) =
     Some \<lparr>bar_value = 0, bar_package = pn, bar_status = getStatusText ci,
           bar_eta = ''calculating...''\<rparr>"
  by (simp_all add: tracked_def Let_def)






lemma register_fields [simp]:
  "activeInstalls (register_project env ex f m) = activeInstalls m"
  "progressBars (register_project env ex f m) = progressBars m"
  "bars (register_project env ex f m) = bars m"
  "multibar (register_project env ex f m) = multibar m"
  "timers (register_project env ex f m) = timers m"
  "next_id (register_project env ex f m) = next_id m"
  by (simp_all add: register_project_def watchProjectDirectoryWithProgress_def Let_def)

lemma discovery_fields [simp]:
  "activeInstalls (fastFindAndMonitorProjects env ex fs m) = activeInstalls m"
  "progressBars (fastFindAndMonitorProjects env ex fs m) = progressBars m"
  "bars (fastFindAndMonitorProjects env ex fs m) = bars m"
  "multibar (fastFindAndMonitorProjects env ex fs m) = multibar m"
  "timers (fastFindAndMonitorProjects env ex fs m) = timers m"
  "next_id (fastFindAndMonitorProjects env ex fs m) = next_id m"
  unfolding discovery_as_fold by (induction fs arbitrary: m; simp)+











lemma run_append: "run env (es @ es') m = run env es' (run env es m)"
  by (simp add: run_def)












subsection \<open>Where a poll looks, and its delay\<close>



















section \<open>The global store\<close>

text \<open>
  Claim C10: every entry appearing in the global install store whose name does not
  start with a dot is tracked under the project name \<open>GLOBAL\<close> with chain
  \<open>user-requested\<close>, parent \<open>null\<close> and reason \<open>Global installation\<close>, without
  reading any manifest or lock file: the resolver is not invoked, so a global install is
  never classified as a dependency or as unknown.

  For the \<open>addDir\<close> callback of the subscription on the global store: an entry with
  a dot-prefixed name changes nothing; any other is handed to
  \<open>trackInstallationWithProgress\<close> with project name \<open>GLOBAL\<close> and that constant
  chain, whatever the files hold; and unless the key is already active (then the call is
  ignored, see C2) the record made carries \<open>GLOBAL\<close> and that chain.
\<close>

theorem C10_global_installs_user_requested:
  assumes "GlobalWatch \<in> set (watchers m)"
  shows
    "(startsWith (path_basename env dirPath) ''.'' \<longrightarrow>
        step env (AddDir GlobalWatch dirPath now files) m = m) \<and>
     (\<not> startsWith (path_basename env dirPath) ''.'' \<longrightarrow>
        step env (AddDir GlobalWatch dirPath now files) m =
          trackInstallationWithProgress now (path_basename env dirPath) ''GLOBAL''
            \<lparr>ci_type = UserRequested, ci_parent = None, ci_reason = ''Global installation''\<rparr> m \<and>
        (activeInstalls m (install_key ''GLOBAL'' (path_basename env dirPath)) = None \<longrightarrow>
           (\<exists>i. activeInstalls (step env (AddDir GlobalWatch dirPath now files) m)
                  (install_key ''GLOBAL'' (path_basename env dirPath)) = Some i \<and>
                i_projectName i = ''GLOBAL'' \<and>
                i_chainInfo i = \<lparr>ci_type = UserRequested, ci_parent = None,
                                 ci_reason = ''Global installation''\<rparr> \<and>
                ci_type (i_chainInfo i) \<noteq> Dependency \<and>
                ci_type (i_chainInfo i) \<noteq> Unknown))) \<and>
     step env (AddDir GlobalWatch dirPath now files') m =
       step env (AddDir GlobalWatch dirPath now files) m"
  using assms
  by (simp add: step_def on_global_addDir_def global_chain_def Let_def track_new
      tracked_effect)

lemma start_has_global_watch:
  "GlobalWatch \<in> set (watchers (statusCommand True True example_env global_store_only []))"
  by code_simp

theorem C10_witness:
  "\<exists>i. activeInstalls chalk_detected ''GLOBAL:chalk'' = Some i \<and>
       i_projectName i = ''GLOBAL'' \<and> ci_type (i_chainInfo i) = UserRequested \<and>
       ci_parent (i_chainInfo i) = None \<and> ci_reason (i_chainInfo i) = ''Global installation''"
proof -
  let ?m = "statusCommand True True example_env global_store_only []"
  have base: "path_basename example_env ''/usr/local/lib/node_modules/chalk'' = ''chalk''"
    by code_simp
  have dot: "\<not> startsWith (path_basename example_env ''/usr/local/lib/node_modules/chalk'') ''.''"
    by code_simp
  have new: "activeInstalls ?m
      (install_key ''GLOBAL'' (path_basename example_env ''/usr/local/lib/node_modules/chalk'')) = None"
    by code_simp
  have run1: "chalk_detected =
      step example_env (AddDir GlobalWatch ''/usr/local/lib/node_modules/chalk'' 1000 no_files) ?m"
    by (simp add: chalk_detected_def run_def)
  from C10_global_installs_user_requested [OF start_has_global_watch,
      of example_env "''/usr/local/lib/node_modules/chalk''" 1000 no_files,
      THEN conjunct2, THEN conjunct1, THEN mp, OF dot, THEN conjunct2, THEN mp, OF new]
  show ?thesis by (auto simp: run1 base install_key_def)
qed

section \<open>The registry\<close>

lemma distinct_count_le: "distinct xs \<Longrightarrow> count_list xs x \<le> 1"
  by (induction xs) auto

lemma step_members: "p \<in> set (monitoredProjects m) \<Longrightarrow> p \<in> set (monitoredProjects (step env e m))"
proof (cases e)
  case (AddDir w dirPath now files)
  then show "p \<in> set (monitoredProjects m) \<Longrightarrow> ?thesis"
    by (simp add: step_def on_project_addDir_def on_local_addDir_def on_global_addDir_def
        Let_def split: watcher.splits sum.splits)
next
  case (Fire tid now ex)
  then show "p \<in> set (monitoredProjects m) \<Longrightarrow> ?thesis" by (simp add: step_def)
next
  case (Discovery fs ex)
  have "p \<in> set (monitoredProjects m) \<Longrightarrow>
      p \<in> set (monitoredProjects (fold (register_project env ex) fs m))" for m
    by (induction fs arbitrary: m) (simp_all add: register_members Set_add_def)
  with Discovery show "p \<in> set (monitoredProjects m) \<Longrightarrow> ?thesis"
    by (simp add: step_def discovery_as_fold)
qed

text \<open>
  Claim C8: registering the same project path twice results in exactly one watch
  subscription and one membership entry for that path; the set of monitored projects
  is keyed by path, no two entries share a path, and a path already in the set is
  skipped by every discovery pass.

  In every state \<open>m\<close> the monitor reaches, no path is a member twice and no
  subscription is held twice. Registering a manifest file a second time changes
  nothing; a file whose directory is a member is skipped; after a registration the
  directory is a member exactly once and has at most one subscription of each kind,
  exactly one on \<open>node_modules\<close> when the path was new and the directory existed;
  a discovery pass that finds only members changes nothing; and no step removes a
  member.
\<close>

theorem C8_registration_idempotent:
  assumes m: "m = run env events (statusCommand uni quick env exists0 files0)"
  shows
    "distinct (monitoredProjects m) \<and> distinct (watchers m) \<and>
     register_project env ex' f (register_project env ex f m) = register_project env ex f m \<and>
     (path_dirname env f \<in> set (monitoredProjects m) \<longrightarrow> register_project env ex f m = m) \<and>
     count_list (monitoredProjects (register_project env ex f m)) (path_dirname env f) = 1 \<and>
     count_list (watchers (register_project env ex f m)) (NodeModulesWatch p) \<le> 1 \<and>
     count_list (watchers (register_project env ex f m)) (PackageJsonWatch p) \<le> 1 \<and>
     (path_dirname env f \<notin> set (monitoredProjects m) \<and>
      ex [path_dirname env f, ''node_modules''] \<longrightarrow>
        count_list (watchers (register_project env ex' f (register_project env ex f m)))
          (NodeModulesWatch (path_dirname env f)) = 1) \<and>
     ((\<forall>g \<in> set fs. path_dirname env g \<in> set (monitoredProjects m)) \<longrightarrow>
        fastFindAndMonitorProjects env ex fs m = m) \<and>
     (\<forall>q \<in> set (monitoredProjects m). q \<in> set (monitoredProjects (step env e m)))"
proof -
  from m reachable_ok [of env events uni quick exists0 files0] have ok: "registry_ok m" by simp
  let ?r = "register_project env ex f m"
  from register_registry [OF ok] have ok': "registry_ok ?r" .
  from ok have 1: "distinct (monitoredProjects m)" and 2: "distinct (watchers m)"
    by (simp_all add: registry_ok_def)
  have 3: "register_project env ex' f ?r = ?r" by (rule register_twice)
  have 4: "path_dirname env f \<in> set (monitoredProjects m) \<longrightarrow> ?r = m"
    by (simp add: register_known)
  from ok' have d: "distinct (monitoredProjects ?r)" and dw: "distinct (watchers ?r)"
    by (simp_all add: registry_ok_def)
  have "path_dirname env f \<in> set (monitoredProjects ?r)"
    by (simp add: register_members Set_add_def)
  with d have 5: "count_list (monitoredProjects ?r) (path_dirname env f) = 1"
    by (rule count_list_distinct)
  from dw have 6: "count_list (watchers ?r) (NodeModulesWatch p) \<le> 1"
    and 7: "count_list (watchers ?r) (PackageJsonWatch p) \<le> 1"
    by (rule distinct_count_le)+
  have 8: "path_dirname env f \<notin> set (monitoredProjects m) \<and>
      ex [path_dirname env f, ''node_modules''] \<longrightarrow>
        count_list (watchers (register_project env ex' f ?r))
          (NodeModulesWatch (path_dirname env f)) = 1"
  proof
    assume a: "path_dirname env f \<notin> set (monitoredProjects m) \<and>
      ex [path_dirname env f, ''node_modules'']"
    then have "NodeModulesWatch (path_dirname env f) \<in> set (watchers ?r)"
      by (simp add: register_project_def watchProjectDirectoryWithProgress_def Let_def)
    with dw show "count_list (watchers (register_project env ex' f ?r))
          (NodeModulesWatch (path_dirname env f)) = 1"
      by (simp add: 3 count_list_distinct)
  qed
  have 9: "(\<forall>g \<in> set fs. path_dirname env g \<in> set (monitoredProjects m)) \<longrightarrow>
        fastFindAndMonitorProjects env ex fs m = m"
    by (simp add: discovery_known)
  have 10: "\<forall>q \<in> set (monitoredProjects m). q \<in> set (monitoredProjects (step env e m))"
    by (simp add: step_members)
  show ?thesis by (intro conjI 1 2 3 4 5 6 7 8 9 10)
qed

lemma app_started_member:
  "path_dirname example_env ''/home/u/app/package.json'' \<in> set (monitoredProjects app_started)"
  by code_simp

theorem C8_witness:
  "register_project example_env app_exists ''/home/u/app/package.json'' app_started = app_started
   \<and> count_list (monitoredProjects app_started) ''/home/u/app'' = 1
   \<and> count_list (watchers app_started) (NodeModulesWatch ''/home/u/app'') = 1"
proof -
  note c_inst = C8_registration_idempotent [OF app_started_def,
      of app_exists "''/home/u/app/package.json''" app_exists]
  from c_inst [THEN conjunct2, THEN conjunct2, THEN conjunct2, THEN conjunct1, THEN mp,
      OF app_started_member]
  have a: "register_project example_env app_exists ''/home/u/app/package.json'' app_started =
      app_started" .
  have b: "count_list (monitoredProjects app_started) ''/home/u/app'' = 1" by code_simp
  have c: "count_list (watchers app_started) (NodeModulesWatch ''/home/u/app'') = 1" by code_simp
  from a b c show ?thesis by simp
qed

end
